theory Spec2Isabelle
  imports Complex_Main "HOL-Library.AList" "HOL-Library.Multiset"
begin

section \<open>Python values used by the scripts\<close>

text \<open>
  The two scripts \<^verbatim>\<open>make_deckgl.py\<close> and \<^verbatim>\<open>postprocess.py\<close> are modelled.
  Conventions of the embedding:
  \<^item> a trace is the list of its lines, a line is a \<open>string\<close>;
  \<^item> a Python \<open>float\<close> is modelled by the real number it denotes (no rounding, no
    infinities, no NaN), a Python \<open>int\<close> by \<open>int\<close> or \<open>nat\<close>;
  \<^item> an uncaught exception is a value \<open>Inl e\<close> of the result type \<open>pyerr + 'a\<close>;
  \<^item> a \<open>dict\<close> is an association list in insertion order with distinct keys
    (\<open>AList.update\<close> overwrites in place or appends at the end, as a Python dict does);
  \<^item> characters are bytes: the classes \<open>\d\<close> and \<open>\b\<close> of the regular expressions
    are modelled on ASCII;
  \<^item> progress reporting (\<open>bytes_read\<close>, \<open>last_pct\<close>, \<open>last_report\<close> and the
    \<open>print\<close> calls) only writes to the terminal and is left out.
\<close>

datatype pyerr = ValueError | IndexError | ZeroDivisionError | KeyError

subsection \<open>Substring tests and the attribute patterns\<close>

definition dquote :: char where
  "dquote = CHR 0x22"

text \<open>\<open>startswith s p\<close>: the string \<open>s\<close> begins with \<open>p\<close>.\<close>

fun startswith :: "string \<Rightarrow> string \<Rightarrow> bool" where
  "startswith s [] = True"
| "startswith [] (p # ps) = False"
| "startswith (c # cs) (p # ps) = (c = p \<and> startswith cs ps)"

text \<open>\<open>contains p s\<close> is Python's \<^verbatim>\<open>p in s\<close> on strings.\<close>

fun contains :: "string \<Rightarrow> string \<Rightarrow> bool" where
  "contains p [] = (p = [])"
| "contains p (c # cs) = (startswith (c # cs) p \<or> contains p cs)"

definition is_digit :: "char \<Rightarrow> bool" where
  "is_digit c = (48 \<le> (of_char c :: nat) \<and> (of_char c :: nat) \<le> 57)"

definition digit_or_dot :: "char \<Rightarrow> bool" where
  "digit_or_dot c = (is_digit c \<or> c = CHR ''.'')"

definition not_quote :: "char \<Rightarrow> bool" where
  "not_quote c = (c \<noteq> dquote)"

definition is_word :: "char \<Rightarrow> bool" where
  "is_word c = (is_digit c \<or> (65 \<le> (of_char c :: nat) \<and> (of_char c :: nat) \<le> 90)
                \<or> (97 \<le> (of_char c :: nat) \<and> (of_char c :: nat) \<le> 122) \<or> c = CHR ''_'')"

text \<open>
  Every pattern of the scripts has the shape \<^verbatim>\<open>key="(C+)"\<close> with \<open>C\<close> a character
  class that excludes the quote, optionally preceded by \<^verbatim>\<open>\b\<close>. At a fixed start
  position such a pattern matches iff the text continues with \<^verbatim>\<open>key="\<close>, then a
  non-empty maximal run of \<open>C\<close>, then a quote: a shorter run is followed by a character
  of \<open>C\<close>, never by the quote, so backtracking adds no match. The group is the run.
\<close>

definition match_here :: "string \<Rightarrow> (char \<Rightarrow> bool) \<Rightarrow> string \<Rightarrow> string option" where
  "match_here key cls s =
     (if startswith s (key @ [CHR ''='', dquote]) then
        (let rest = drop (length key + 2) s;
             g = takeWhile cls rest;
             r = dropWhile cls rest
         in if g \<noteq> [] \<and> startswith r [dquote] then Some g else None)
      else None)"

text \<open>
  \<open>re_search wb key cls prevw s\<close> is \<^verbatim>\<open>re.search\<close>: the leftmost start position
  that matches. \<open>wb\<close> says whether the pattern starts with \<^verbatim>\<open>\b\<close>; \<open>prevw\<close> says
  whether the character before the current position is a word character (the key starts
  with a letter, so the boundary holds iff it is not).
\<close>

fun re_search :: "bool \<Rightarrow> string \<Rightarrow> (char \<Rightarrow> bool) \<Rightarrow> bool \<Rightarrow> string \<Rightarrow> string option" where
  "re_search wb key cls prevw [] = None"
| "re_search wb key cls prevw (c # cs) =
     (case (if wb \<and> prevw then None else match_here key cls (c # cs)) of
        Some g \<Rightarrow> Some g
      | None \<Rightarrow> re_search wb key cls (is_word c) cs)"

definition RE_TIME :: "string \<Rightarrow> string option" where
  "RE_TIME line = re_search False ''time'' digit_or_dot False line"

definition RE_LANE :: "string \<Rightarrow> string option" where
  "RE_LANE line = re_search False ''lane'' not_quote False line"

definition RE_SPEED :: "string \<Rightarrow> string option" where
  "RE_SPEED line = re_search False ''speed'' digit_or_dot False line"

definition RE_VID :: "string \<Rightarrow> string option" where
  "RE_VID line = re_search True ''id'' not_quote False line"

definition RE_X :: "string \<Rightarrow> string option" where
  "RE_X line = re_search True ''x'' digit_or_dot False line"

definition RE_Y :: "string \<Rightarrow> string option" where
  "RE_Y line = re_search True ''y'' digit_or_dot False line"

subsection \<open>Conversions\<close>

definition digits_val :: "string \<Rightarrow> nat" where
  "digits_val ds = foldl (\<lambda>a c. 10 * a + (of_char c - 48)) 0 ds"

text \<open>
  \<open>py_float\<close> is \<^verbatim>\<open>float(s)\<close> on the strings the patterns capture (digits and dots):
  digits, optionally one dot, optionally digits, with at least one digit; anything else
  raises \<open>ValueError\<close>, for instance \<^verbatim>\<open>"1.2.3"\<close> and \<^verbatim>\<open>"."\<close>.
\<close>

definition py_float :: "string \<Rightarrow> pyerr + real" where
  "py_float g =
     (let ip = takeWhile is_digit g; r = dropWhile is_digit g
      in case r of
           [] \<Rightarrow> if ip = [] then Inl ValueError else Inr (real (digits_val ip))
         | c # fp \<Rightarrow>
             if c = CHR ''.'' \<and> list_all is_digit fp \<and> (ip \<noteq> [] \<or> fp \<noteq> [])
             then Inr (real (digits_val ip) + real (digits_val fp) / 10 ^ length fp)
             else Inl ValueError)"

text \<open>\<^verbatim>\<open>int(x)\<close> on a float truncates towards zero.\<close>

definition py_int :: "real \<Rightarrow> int" where
  "py_int x = (if 0 \<le> x then \<lfloor>x\<rfloor> else \<lceil>x\<rceil>)"

text \<open>\<^verbatim>\<open>round(x, nd)\<close>: nearest multiple of \<open>10^-nd\<close>, ties to the even neighbour.\<close>

definition round_half_even :: "real \<Rightarrow> int" where
  "round_half_even x =
     (let f = \<lfloor>x\<rfloor>; d = x - of_int f
      in if d < 1 / 2 then f else if 1 / 2 < d then f + 1 else if even f then f else f + 1)"

definition py_round :: "real \<Rightarrow> nat \<Rightarrow> real" where
  "py_round x nd = of_int (round_half_even (x * 10 ^ nd)) / 10 ^ nd"

text \<open>\<^verbatim>\<open>a / b\<close> on numbers raises \<open>ZeroDivisionError\<close> when \<open>b\<close> is zero.\<close>

definition py_div :: "real \<Rightarrow> real \<Rightarrow> pyerr + real" where
  "py_div a b = (if b = 0 then Inl ZeroDivisionError else Inr (a / b))"

section \<open>make\_deckgl.py: the trajectory scan\<close>

definition MORNING_START :: int where "MORNING_START = 7 * 3600"
definition MORNING_END :: int where "MORNING_END = 9 * 3600"
definition BUFFER :: int where "BUFFER = 60"
definition MAX_VEHICLES :: nat where "MAX_VEHICLES = 8000"
definition MIN_WAYPOINTS :: nat where "MIN_WAYPOINTS = 5"

text \<open>A waypoint is the list \<^verbatim>\<open>[int(cur_time), x, y, speed_kmh]\<close>.\<close>

record waypoint =
  wp_time :: int
  wp_x :: real
  wp_y :: real
  wp_speed :: real

type_synonym vehicles = "(string \<times> waypoint list) list"

text \<open>
  The variables of a trajectory scan: \<open>vehicles\<close> and \<open>cur_time\<close> in both scripts,
  and the flag \<open>in_window\<close> that only \<^verbatim>\<open>make_deckgl.py\<close> keeps.
\<close>

record tstate =
  vehicles :: vehicles
  cur_time :: real

record dstate = tstate +
  in_window :: bool

definition dstate0 :: dstate where
  "dstate0 = \<lparr>vehicles = [], cur_time = - 1, in_window = False\<rparr>"

text \<open>What one iteration of a \<^verbatim>\<open>for line in f\<close> loop asks of the loop.\<close>

datatype ctl = Continue | Break

text \<open>
  \<open>mk_waypoint nd t xg yg sg\<close> is the list appended at lines 72-77 (with \<open>nd = 5\<close>) and
  at lines 209-211 of \<^verbatim>\<open>postprocess.py\<close> (with \<open>nd = 6\<close>); a group that is not a
  float literal raises.
\<close>

definition mk_waypoint :: "nat \<Rightarrow> real \<Rightarrow> string \<Rightarrow> string \<Rightarrow> string \<Rightarrow> pyerr + waypoint" where
  "mk_waypoint nd t xg yg sg =
     (case py_float xg of Inl e \<Rightarrow> Inl e | Inr x \<Rightarrow>
      case py_float yg of Inl e \<Rightarrow> Inl e | Inr y \<Rightarrow>
      case py_float sg of Inl e \<Rightarrow> Inl e | Inr s \<Rightarrow>
        Inr \<lparr>wp_time = py_int t, wp_x = py_round x nd, wp_y = py_round y nd,
             wp_speed = py_round (s * 3.6) 1\<rparr>)"

text \<open>
  \<^verbatim>\<open>if vid not in vehicles: vehicles[vid] = []\<close> followed by
  \<^verbatim>\<open>vehicles[vid].append(w)\<close>.
\<close>

definition ensure_vehicle :: "string \<Rightarrow> vehicles \<Rightarrow> vehicles" where
  "ensure_vehicle vid vs = (if map_of vs vid = None then AList.update vid [] vs else vs)"

definition append_waypoint :: "string \<Rightarrow> waypoint \<Rightarrow> vehicles \<Rightarrow> pyerr + vehicles" where
  "append_waypoint vid w vs =
     (case map_of vs vid of
        None \<Rightarrow> Inl KeyError
      | Some ws \<Rightarrow> Inr (AList.update vid (ws @ [w]) vs))"

text \<open>The body of the loop at lines 42-77 of \<^verbatim>\<open>make_deckgl.py\<close>.\<close>

definition deckgl_step :: "dstate \<Rightarrow> string \<Rightarrow> pyerr + (ctl \<times> dstate)" where
  "deckgl_step s line =
     (if contains ''<timestep'' line then
        (case RE_TIME line of
           None \<Rightarrow> Inr (Continue, s)
         | Some g \<Rightarrow>
             (case py_float g of
                Inl e \<Rightarrow> Inl e
              | Inr t \<Rightarrow>
                  let s' = s\<lparr>cur_time := t,
                              in_window := (of_int (MORNING_START - BUFFER) \<le> t
                                            \<and> t \<le> of_int (MORNING_END + BUFFER))\<rparr>
                  in if of_int (MORNING_END + BUFFER) < t then Inr (Break, s')
                     else Inr (Continue, s')))
      else if in_window s \<and> contains ''<vehicle'' line then
        (case (RE_VID line, RE_X line, RE_Y line, RE_SPEED line) of
           (Some vid, Some xg, Some yg, Some sg) \<Rightarrow>
             (let vs = ensure_vehicle vid (vehicles s)
              in case mk_waypoint 5 (cur_time s) xg yg sg of
                   Inl e \<Rightarrow> Inl e
                 | Inr w \<Rightarrow>
                     (case append_waypoint vid w vs of
                        Inl e \<Rightarrow> Inl e
                      | Inr vs' \<Rightarrow> Inr (Continue, s\<lparr>vehicles := vs'\<rparr>)))
         | _ \<Rightarrow> Inr (Continue, s))
      else Inr (Continue, s))"

text \<open>The loop itself: it ends at the end of the file, at a \<^verbatim>\<open>break\<close> or at an exception.\<close>

fun deckgl_scan :: "dstate \<Rightarrow> string list \<Rightarrow> pyerr + dstate" where
  "deckgl_scan s [] = Inr s"
| "deckgl_scan s (l # ls) =
     (case deckgl_step s l of
        Inl e \<Rightarrow> Inl e
      | Inr (Break, s') \<Rightarrow> Inr s'
      | Inr (Continue, s') \<Rightarrow> deckgl_scan s' ls)"

text \<open>
  Lines 83-94: the filter on \<open>MIN_WAYPOINTS\<close>, then the cap on \<open>MAX_VEHICLES\<close>.
  \<^verbatim>\<open>sorted(..., reverse=True)\<close> is stable: keys of equal length keep their order.
  The keys that are sorted and looked up are keys of \<open>valid\<close> itself, so \<^verbatim>\<open>valid[v]\<close>
  never raises; the \<open>None\<close> branches below are never taken.
\<close>

definition deckgl_valid :: "vehicles \<Rightarrow> vehicles" where
  "deckgl_valid vs = filter (\<lambda>(vid, wps). MIN_WAYPOINTS \<le> length wps) vs"

definition n_waypoints :: "vehicles \<Rightarrow> string \<Rightarrow> nat" where
  "n_waypoints valid v = (case map_of valid v of Some wps \<Rightarrow> length wps | None \<Rightarrow> 0)"

definition deckgl_cap :: "vehicles \<Rightarrow> vehicles" where
  "deckgl_cap valid =
     (if MAX_VEHICLES < length valid then
        (let sorted_vids = sort_key (\<lambda>v. - int (n_waypoints valid v)) (map fst valid)
         in List.map_filter
              (\<lambda>vid. case map_of valid vid of Some wps \<Rightarrow> Some (vid, wps) | None \<Rightarrow> None)
              (take MAX_VEHICLES sorted_vids))
      else valid)"

definition deckgl_finalize :: "vehicles \<Rightarrow> vehicles" where
  "deckgl_finalize vs = deckgl_cap (deckgl_valid vs)"

definition make_deckgl :: "string list \<Rightarrow> pyerr + vehicles" where
  "make_deckgl trace =
     (case deckgl_scan dstate0 trace of
        Inl e \<Rightarrow> Inl e
      | Inr s \<Rightarrow> Inr (deckgl_finalize (vehicles s)))"

section \<open>postprocess.py, step 4: the trajectory scan\<close>

definition tstate0 :: tstate where
  "tstate0 = \<lparr>vehicles = [], cur_time = - 1\<rparr>"

text \<open>The body of the loop at lines 196-211 of \<^verbatim>\<open>postprocess.py\<close>.\<close>

definition traj_step :: "tstate \<Rightarrow> string \<Rightarrow> pyerr + (ctl \<times> tstate)" where
  "traj_step s line =
     (if contains ''<timestep'' line then
        (case RE_TIME line of
           None \<Rightarrow> Inr (Continue, s)
         | Some g \<Rightarrow>
             (case py_float g of
                Inl e \<Rightarrow> Inl e
              | Inr t \<Rightarrow>
                  let s' = s\<lparr>cur_time := t\<rparr>
                  in if of_int (MORNING_END + 120) < t then Inr (Break, s')
                     else Inr (Continue, s')))
      else if of_int (MORNING_START - 60) \<le> cur_time s
              \<and> cur_time s \<le> of_int (MORNING_END + 60)
              \<and> contains ''<vehicle'' line then
        (case (RE_VID line, RE_X line, RE_Y line, RE_SPEED line) of
           (Some vid, Some xg, Some yg, Some sg) \<Rightarrow>
             (let vs = ensure_vehicle vid (vehicles s)
              in case mk_waypoint 6 (cur_time s) xg yg sg of
                   Inl e \<Rightarrow> Inl e
                 | Inr w \<Rightarrow>
                     (case append_waypoint vid w vs of
                        Inl e \<Rightarrow> Inl e
                      | Inr vs' \<Rightarrow> Inr (Continue, s\<lparr>vehicles := vs'\<rparr>)))
         | _ \<Rightarrow> Inr (Continue, s))
      else Inr (Continue, s))"

fun traj_scan :: "tstate \<Rightarrow> string list \<Rightarrow> pyerr + tstate" where
  "traj_scan s [] = Inr s"
| "traj_scan s (l # ls) =
     (case traj_step s l of
        Inl e \<Rightarrow> Inl e
      | Inr (Break, s') \<Rightarrow> Inr s'
      | Inr (Continue, s') \<Rightarrow> traj_scan s' ls)"

text \<open>Line 213: the only filter of this script; it has no cap on the number of vehicles.\<close>

definition postprocess_deckgl :: "vehicles \<Rightarrow> vehicles" where
  "postprocess_deckgl vs = filter (\<lambda>(vid, wps). 5 \<le> length wps) vs"

definition postprocess_trips :: "string list \<Rightarrow> pyerr + vehicles" where
  "postprocess_trips trace =
     (case traj_scan tstate0 trace of
        Inl e \<Rightarrow> Inl e
      | Inr s \<Rightarrow> Inr (postprocess_deckgl (vehicles s)))"

section \<open>Reference scans and trace predicates\<close>

text \<open>
  The scans that read the entire file: the same loop bodies, with the \<^verbatim>\<open>break\<close>
  ignored. They are the comparison point for the early stop.
\<close>

fun deckgl_scan_full :: "dstate \<Rightarrow> string list \<Rightarrow> pyerr + dstate" where
  "deckgl_scan_full s [] = Inr s"
| "deckgl_scan_full s (l # ls) =
     (case deckgl_step s l of
        Inl e \<Rightarrow> Inl e
      | Inr (c, s') \<Rightarrow> deckgl_scan_full s' ls)"

fun traj_scan_full :: "tstate \<Rightarrow> string list \<Rightarrow> pyerr + tstate" where
  "traj_scan_full s [] = Inr s"
| "traj_scan_full s (l # ls) =
     (case traj_step s l of
        Inl e \<Rightarrow> Inl e
      | Inr (c, s') \<Rightarrow> traj_scan_full s' ls)"

text \<open>The waypoint table of a finished scan, or the exception that ended it.\<close>

definition table_of :: "pyerr + ('a tstate_scheme) \<Rightarrow> pyerr + vehicles" where
  "table_of r = (case r of Inl e \<Rightarrow> Inl e | Inr s \<Rightarrow> Inr (vehicles s))"

text \<open>
  The time attribute of a boundary line, and the times of a trace. A trace has
  monotonically non-decreasing timestep times when every time attribute that the
  pattern extracts is a float literal and their values never decrease.
\<close>

definition line_time :: "string \<Rightarrow> string option" where
  "line_time line = (if contains ''<timestep'' line then RE_TIME line else None)"

fun trace_times :: "string list \<Rightarrow> real list option" where
  "trace_times [] = Some []"
| "trace_times (l # ls) =
     (case line_time l of
        None \<Rightarrow> trace_times ls
      | Some g \<Rightarrow>
          (case py_float g of
             Inl e \<Rightarrow> None
           | Inr t \<Rightarrow> map_option ((#) t) (trace_times ls)))"

definition monotone_trace :: "string list \<Rightarrow> bool" where
  "monotone_trace trace = (case trace_times trace of None \<Rightarrow> False | Some ts \<Rightarrow> sorted ts)"

text \<open>Building the lines of a trace: an attribute, a boundary line, a sample line.\<close>

definition attr :: "string \<Rightarrow> string \<Rightarrow> string" where
  "attr k v = CHR '' '' # k @ [CHR ''='', dquote] @ v @ [dquote]"

definition timestep_line :: "string \<Rightarrow> string" where
  "timestep_line t = ''    <timestep'' @ attr ''time'' t @ ''>''"

definition vehicle_line :: "string \<Rightarrow> string \<Rightarrow> string \<Rightarrow> string \<Rightarrow> string \<Rightarrow> string" where
  "vehicle_line vid x y lane speed =
     ''        <vehicle'' @ attr ''id'' vid @ attr ''x'' x @ attr ''y'' y
       @ attr ''lane'' lane @ attr ''speed'' speed @ ''/>''"

text \<open>
  A trace that runs past the window: one sample at 09:00:00, one at 09:01:01 (outside the
  buffer of 60 s), and a last boundary at 09:03:20.
\<close>

definition trace_past_window :: "string list" where
  "trace_past_window =
     [timestep_line ''32400.00'',
      vehicle_line ''veh0'' ''100.5'' ''200.25'' ''12#0_1'' ''10.0'',
      timestep_line ''32461.00'',
      vehicle_line ''veh0'' ''100.5'' ''200.25'' ''12#0_1'' ''10.0'',
      timestep_line ''32600.00'']"

text \<open>
  A trace with a step length of half a second: the boundary times increase strictly,
  the same vehicle is sampled at each of them.
\<close>

definition trace_half_seconds :: "string list" where
  "trace_half_seconds =
     [timestep_line ''25200.00'',
      vehicle_line ''veh0'' ''100.5'' ''200.25'' ''12#0_1'' ''10.0'',
      timestep_line ''25200.50'',
      vehicle_line ''veh0'' ''101.5'' ''200.25'' ''12#0_1'' ''10.0'',
      timestep_line ''25201.00'',
      vehicle_line ''veh0'' ''102.5'' ''200.25'' ''12#0_1'' ''10.0'',
      timestep_line ''25201.50'',
      vehicle_line ''veh0'' ''103.5'' ''200.25'' ''12#0_1'' ''10.0'',
      timestep_line ''25202.00'',
      vehicle_line ''veh0'' ''104.5'' ''200.25'' ''12#0_1'' ''10.0'']"

text \<open>The waypoint times of an output, vehicle by vehicle.\<close>

definition out_times :: "pyerr + vehicles \<Rightarrow> pyerr + (string \<times> int list) list" where
  "out_times r =
     (case r of Inl e \<Rightarrow> Inl e
      | Inr vs \<Rightarrow> Inr (map (\<lambda>(vid, wps). (vid, map wp_time wps)) vs))"

text \<open>
  Invariants of the trajectory scans: every waypoint time of the table lies in the
  buffered window and is at most \<open>u\<close>, and each list of times is sorted.
\<close>

definition in_range :: "int \<Rightarrow> bool" where
  "in_range t = (MORNING_START - BUFFER \<le> t \<and> t \<le> MORNING_END + BUFFER)"

definition traj_inv :: "vehicles \<Rightarrow> int \<Rightarrow> bool" where
  "traj_inv vs u = (\<forall>(vid, wps) \<in> set vs. sorted (map wp_time wps)
       \<and> (\<forall>w \<in> set wps. in_range (wp_time w) \<and> wp_time w \<le> u))"

definition dinv :: "dstate \<Rightarrow> bool" where
  "dinv s = (traj_inv (vehicles s) (py_int (cur_time s))
     \<and> (in_window s \<longrightarrow> of_int (MORNING_START - BUFFER) \<le> cur_time s
                        \<and> cur_time s \<le> of_int (MORNING_END + BUFFER)))"

section \<open>postprocess.py, step 1: the aggregation scan\<close>

definition EVENING_START :: int where "EVENING_START = 17 * 3600"
definition EVENING_END :: int where "EVENING_END = 20 * 3600"
definition SAMPLE_EVERY :: int where "SAMPLE_EVERY = 30"

text \<open>
  \<open>edge_speed_sum\<close> and \<open>edge_speed_count\<close> are \<^verbatim>\<open>defaultdict\<close>s: reading a
  missing key gives the zero of the value type, and \<^verbatim>\<open>d[k] += v\<close> creates the key.
\<close>

definition dd_get :: "('k \<times> 'v::zero) list \<Rightarrow> 'k \<Rightarrow> 'v" where
  "dd_get d k = (case map_of d k of None \<Rightarrow> 0 | Some v \<Rightarrow> v)"

definition dd_add :: "'k \<Rightarrow> 'v \<Rightarrow> ('k \<times> 'v::{zero,plus}) list \<Rightarrow> ('k \<times> 'v) list" where
  "dd_add k v d = AList.update k (dd_get d k + v) d"

record astate =
  edge_speed_sum :: "(string \<times> real) list"
  edge_speed_count :: "(string \<times> nat) list"
  current_time :: real
  in_peak :: bool
  sample_this :: bool

definition astate0 :: astate where
  "astate0 = \<lparr>edge_speed_sum = [], edge_speed_count = [], current_time = - 1,
               in_peak = False, sample_this = False\<rparr>"

text \<open>
  \<^verbatim>\<open>lane.rsplit('_', 1)[0]\<close>: the lane id without its last underscore and what
  follows it; the whole id when it has no underscore.
\<close>

definition edge_of_lane :: "string \<Rightarrow> string" where
  "edge_of_lane lane =
     (if CHR ''_'' \<in> set lane
      then rev (tl (dropWhile (\<lambda>c. c \<noteq> CHR ''_'') (rev lane)))
      else lane)"

text \<open>Lines 69-70: one sample folded into the two accumulators.\<close>

definition fold_sample :: "string \<Rightarrow> real \<Rightarrow> astate \<Rightarrow> astate" where
  "fold_sample edge_id speed s =
     s\<lparr>edge_speed_sum := dd_add edge_id speed (edge_speed_sum s),
       edge_speed_count := dd_add edge_id 1 (edge_speed_count s)\<rparr>"

text \<open>The body of the loop at lines 43-70 of \<^verbatim>\<open>postprocess.py\<close>.\<close>

definition agg_step :: "astate \<Rightarrow> string \<Rightarrow> pyerr + astate" where
  "agg_step s line =
     (if contains ''<timestep'' line then
        (case RE_TIME line of
           None \<Rightarrow> Inr s
         | Some g \<Rightarrow>
             (case py_float g of
                Inl e \<Rightarrow> Inl e
              | Inr t \<Rightarrow>
                  let peak = (of_int MORNING_START \<le> t \<and> t \<le> of_int MORNING_END
                              \<or> of_int EVENING_START \<le> t \<and> t \<le> of_int EVENING_END)
                  in Inr (s\<lparr>current_time := t, in_peak := peak,
                            sample_this := (peak \<and> py_int t mod SAMPLE_EVERY = 0)\<rparr>)))
      else if sample_this s \<and> contains ''<vehicle'' line then
        (case (RE_LANE line, RE_SPEED line) of
           (Some lg, Some sg) \<Rightarrow>
             (case py_float sg of
                Inl e \<Rightarrow> Inl e
              | Inr v \<Rightarrow> Inr (fold_sample (edge_of_lane lg) (v * 3.6) s))
         | _ \<Rightarrow> Inr s)
      else Inr s)"

fun agg_scan :: "astate \<Rightarrow> string list \<Rightarrow> pyerr + astate" where
  "agg_scan s [] = Inr s"
| "agg_scan s (l # ls) =
     (case agg_step s l of Inl e \<Rightarrow> Inl e | Inr s' \<Rightarrow> agg_scan s' ls)"

text \<open>
  Lines 81-82: for every key of \<open>edge_speed_count\<close>, in order,
  \<^verbatim>\<open>mean_speed = edge_speed_sum[edge_id] / count\<close>.
\<close>

fun mean_speeds :: "(string \<times> real) list \<Rightarrow> (string \<times> nat) list \<Rightarrow> pyerr + (string \<times> real) list" where
  "mean_speeds speed_sum [] = Inr []"
| "mean_speeds speed_sum ((edge_id, cnt) # rest) =
     (case py_div (dd_get speed_sum edge_id) (real cnt) of
        Inl e \<Rightarrow> Inl e
      | Inr mean_speed \<Rightarrow>
          (case mean_speeds speed_sum rest of
             Inl e \<Rightarrow> Inl e
           | Inr ms \<Rightarrow> Inr ((edge_id, mean_speed) # ms)))"

definition mean_speed_table :: "astate \<Rightarrow> pyerr + (string \<times> real) list" where
  "mean_speed_table s = mean_speeds (edge_speed_sum s) (edge_speed_count s)"

text \<open>
  The samples a scan folds, in order, as pairs of segment id and speed in km/h:
  \<open>sample_of s line\<close> is what the line contributes when the loop body runs in state
  \<open>s\<close>, and \<open>folded_samples\<close> collects the contributions along the trace.
\<close>

definition sample_of :: "astate \<Rightarrow> string \<Rightarrow> (string \<times> real) option" where
  "sample_of s line =
     (if \<not> contains ''<timestep'' line \<and> sample_this s \<and> contains ''<vehicle'' line then
        (case (RE_LANE line, RE_SPEED line) of
           (Some lg, Some sg) \<Rightarrow>
             (case py_float sg of
                Inl e \<Rightarrow> None
              | Inr v \<Rightarrow> Some (edge_of_lane lg, v * 3.6))
         | _ \<Rightarrow> None)
      else None)"

fun folded_samples :: "astate \<Rightarrow> string list \<Rightarrow> (string \<times> real) list" where
  "folded_samples s [] = []"
| "folded_samples s (l # ls) =
     (case agg_step s l of
        Inl e \<Rightarrow> []
      | Inr s' \<Rightarrow> (case sample_of s l of None \<Rightarrow> [] | Some x \<Rightarrow> [x]) @ folded_samples s' ls)"

definition samples_for :: "string \<Rightarrow> (string \<times> real) list \<Rightarrow> real list" where
  "samples_for edge_id xs = map snd (filter (\<lambda>(k, v). k = edge_id) xs)"

definition half_seconds_out :: vehicles where
  "half_seconds_out =
     [(''veh0'',
       [\<lparr>wp_time = 25200, wp_x = 100.5, wp_y = 200.25, wp_speed = 36\<rparr>,
        \<lparr>wp_time = 25200, wp_x = 101.5, wp_y = 200.25, wp_speed = 36\<rparr>,
        \<lparr>wp_time = 25201, wp_x = 102.5, wp_y = 200.25, wp_speed = 36\<rparr>,
        \<lparr>wp_time = 25201, wp_x = 103.5, wp_y = 200.25, wp_speed = 36\<rparr>,
        \<lparr>wp_time = 25202, wp_x = 104.5, wp_y = 200.25, wp_speed = 36\<rparr>])]"

text \<open>
  A trace for the aggregation: two samples of segment \<open>12#0\<close> and one of segment \<open>7\<close>
  at 07:00:00 (a sampled second), one sample at 07:00:01 (not sampled).
\<close>

definition agg_trace :: "string list" where
  "agg_trace =
     [timestep_line ''25200.00'',
      vehicle_line ''veh0'' ''100.5'' ''200.25'' ''12#0_1'' ''10.0'',
      vehicle_line ''veh1'' ''100.5'' ''200.25'' ''12#0_0'' ''5.0'',
      vehicle_line ''veh2'' ''100.5'' ''200.25'' ''7_0'' ''2.5'',
      timestep_line ''25201.00'',
      vehicle_line ''veh0'' ''100.5'' ''200.25'' ''12#0_1'' ''10.0'']"

definition agg_trace_result :: astate where
  "agg_trace_result =
     \<lparr>edge_speed_sum = [(''12#0'', 54), (''7'', 9)],
      edge_speed_count = [(''12#0'', 2), (''7'', 1)],
      current_time = 25201, in_peak = True, sample_this = False\<rparr>"

text \<open>Every stored count is positive.\<close>

definition counts_pos :: "(string \<times> nat) list \<Rightarrow> bool" where
  "counts_pos d = (\<forall>(k, c) \<in> set d. 0 < c)"

section \<open>postprocess.py, steps 2 and 3: congestion rows and road features\<close>

text \<open>
  The static network comes from \<^verbatim>\<open>sumolib\<close>, which is not part of the repository. An
  edge is modelled by what the script reads of it: \<^verbatim>\<open>getID()\<close>, \<^verbatim>\<open>getSpeed()\<close>,
  \<^verbatim>\<open>getLength()\<close>, \<^verbatim>\<open>getShape()\<close> and \<^verbatim>\<open>len(getLanes())\<close>. \<^verbatim>\<open>net.getEdge\<close> is a partial
  lookup (it raises on an unknown id) and \<^verbatim>\<open>net.convertXY2LonLat\<close> is a parameter
  \<open>conv\<close> of the functions that use it.
\<close>

type_synonym point = "real \<times> real"

record edge =
  e_id :: string
  e_speed :: real
  e_length :: real
  e_shape :: "point list"
  e_lanes :: nat

record row =
  edge_id :: string
  mean_speed_kmh :: real
  mean_speed_rel :: real
  freeflow_kmh :: real
  length_m :: real
  sample_count :: nat
  peak_flow :: real

text \<open>Lines 83-97: the row of one segment; the bare \<^verbatim>\<open>except\<close> covers an unknown id.\<close>

definition make_row :: "(string \<Rightarrow> edge option) \<Rightarrow> string \<Rightarrow> nat \<Rightarrow> real \<Rightarrow> row" where
  "make_row net eid cnt mean_speed =
     (let (ff, len) = (case net eid of
                         Some e \<Rightarrow> (max (e_speed e * 3.6) 10, e_length e)
                       | None \<Rightarrow> (50, 50))
      in \<lparr>edge_id = eid,
          mean_speed_kmh = py_round mean_speed 2,
          mean_speed_rel = py_round (mean_speed / ff) 4,
          freeflow_kmh = py_round ff 1,
          length_m = py_round len 1,
          sample_count = cnt,
          peak_flow = py_round (real cnt / 4) 1\<rparr>)"

fun make_rows :: "(string \<Rightarrow> edge option) \<Rightarrow> (string \<times> real) list \<Rightarrow> (string \<times> nat) list \<Rightarrow> pyerr + row list" where
  "make_rows net speed_sum [] = Inr []"
| "make_rows net speed_sum ((eid, cnt) # rest) =
     (case py_div (dd_get speed_sum eid) (real cnt) of
        Inl e \<Rightarrow> Inl e
      | Inr mean_speed \<Rightarrow>
          (case make_rows net speed_sum rest of
             Inl e \<Rightarrow> Inl e
           | Inr rs \<Rightarrow> Inr (make_row net eid cnt mean_speed # rs)))"

text \<open>\<^verbatim>\<open>congestion = {r['edge_id']: r for _, r in df.iterrows()}\<close>\<close>

definition congestion_of :: "row list \<Rightarrow> (string \<times> row) list" where
  "congestion_of rows = map (\<lambda>r. (edge_id r, r)) rows"

subsection \<open>The congestion classifier\<close>

definition sr_to_color :: "real \<Rightarrow> int list" where
  "sr_to_color sr =
     (if sr < 0.25 then [204, 0, 0]
      else if sr < 0.45 then [255, 68, 0]
      else if sr < 0.60 then [255, 136, 0]
      else if sr < 0.75 then [255, 187, 0]
      else if sr < 0.90 then [136, 204, 0]
      else [0, 170, 68])"

subsection \<open>Lane offsets\<close>

text \<open>\<^verbatim>\<open>xs[i]\<close> with Python's negative indices; out of range raises \<open>IndexError\<close>.\<close>

definition py_index :: "'a list \<Rightarrow> int \<Rightarrow> pyerr + 'a" where
  "py_index xs i =
     (if 0 \<le> i \<and> i < int (length xs) then Inr (xs ! nat i)
      else if i < 0 \<and> - int (length xs) \<le> i then Inr (xs ! nat (int (length xs) + i))
      else Inl IndexError)"

text \<open>A loop that appends one result per element and stops at the first exception.\<close>

fun collect :: "('a \<Rightarrow> pyerr + 'b) \<Rightarrow> 'a list \<Rightarrow> pyerr + 'b list" where
  "collect f [] = Inr []"
| "collect f (x # xs) =
     (case f x of
        Inl e \<Rightarrow> Inl e
      | Inr y \<Rightarrow> (case collect f xs of Inl e \<Rightarrow> Inl e | Inr ys \<Rightarrow> Inr (y # ys)))"

text \<open>\<^verbatim>\<open>coords[a][0]-coords[b][0], coords[a][1]-coords[b][1]\<close>\<close>

definition diff_at :: "point list \<Rightarrow> int \<Rightarrow> int \<Rightarrow> pyerr + (real \<times> real)" where
  "diff_at coords a b =
     (case py_index coords a of
        Inl e \<Rightarrow> Inl e
      | Inr p \<Rightarrow>
          (case py_index coords b of
             Inl e \<Rightarrow> Inl e
           | Inr q \<Rightarrow> Inr (fst p - fst q, snd p - snd q)))"

text \<open>Lines 124-126: the local direction at index \<open>i\<close> of \<open>n\<close> points.\<close>

definition local_dir :: "point list \<Rightarrow> int \<Rightarrow> pyerr + (real \<times> real)" where
  "local_dir coords i =
     (if i = 0 then diff_at coords 1 0
      else if i = int (length coords) - 1 then diff_at coords (- 1) (- 2)
      else diff_at coords (i + 1) (i - 1))"

definition dir_len :: "real \<times> real \<Rightarrow> real" where
  "dir_len d = sqrt (fst d * fst d + snd d * snd d)"

text \<open>Lines 127-129: the vertex itself when \<open>L == 0\<close>, the shifted vertex otherwise.\<close>

definition offset_point :: "point \<Rightarrow> real \<times> real \<Rightarrow> real \<Rightarrow> pyerr + point" where
  "offset_point pt d offset_m =
     (let L = dir_len d
      in if L = 0 then Inr pt
         else (case py_div (- snd d) L of
                 Inl e \<Rightarrow> Inl e
               | Inr nx \<Rightarrow>
                   (case py_div (fst d) L of
                      Inl e \<Rightarrow> Inl e
                    | Inr ny \<Rightarrow>
                        Inr (fst pt + nx * offset_m / 75000, snd pt + ny * offset_m / 111000))))"

definition offset_vertex :: "point list \<Rightarrow> real \<Rightarrow> nat \<times> point \<Rightarrow> pyerr + point" where
  "offset_vertex coords offset_m ip =
     (case local_dir coords (int (fst ip)) of
        Inl e \<Rightarrow> Inl e
      | Inr d \<Rightarrow> offset_point (snd ip) d offset_m)"

definition offset_line :: "point list \<Rightarrow> real \<Rightarrow> pyerr + point list" where
  "offset_line coords offset_m = collect (offset_vertex coords offset_m) (enumerate 0 coords)"

subsection \<open>Merging the segments of a group\<close>

text \<open>\<^verbatim>\<open>re.search(r'#(\d+)$', id)\<close>: a hash, then digits up to the end of the id
  (or up to a final newline).\<close>

fun seg_search :: "string \<Rightarrow> string option" where
  "seg_search [] = None"
| "seg_search (c # cs) =
     (if c = CHR ''#'' \<and> takeWhile is_digit cs \<noteq> []
         \<and> (dropWhile is_digit cs = [] \<or> dropWhile is_digit cs = [CHR 0x0A])
      then Some (takeWhile is_digit cs)
      else seg_search cs)"

definition seg_num :: "edge \<Rightarrow> int" where
  "seg_num e = (case seg_search (e_id e) of Some g \<Rightarrow> int (digits_val g) | None \<Rightarrow> 0)"

definition close_pts :: "point \<Rightarrow> point \<Rightarrow> bool" where
  "close_pts p q = (\<bar>fst p - fst q\<bar> < 5 / 100000 \<and> \<bar>snd p - snd q\<bar> < 5 / 100000)"

text \<open>Lines 151-154: one iteration of the merge loop, for the polyline \<open>ll\<close> of an edge.\<close>

definition merge_step :: "point list \<Rightarrow> point list \<Rightarrow> point list" where
  "merge_step merged ll =
     merged @ (if merged \<noteq> [] \<and> ll \<noteq> [] \<and> close_pts (hd ll) (last merged) then tl ll else ll)"

definition merge_shapes :: "point list list \<Rightarrow> point list" where
  "merge_shapes lls = foldl merge_step [] lls"

definition group_edges :: "edge list \<Rightarrow> edge list" where
  "group_edges edges = sort_key seg_num edges"

definition group_merged :: "(point \<Rightarrow> point) \<Rightarrow> edge list \<Rightarrow> point list" where
  "group_merged conv edges = merge_shapes (map (\<lambda>e. map conv (e_shape e)) (group_edges edges))"

text \<open>Lines 156-160: the triples \<open>(sr, flow, w)\<close> of the edges that have a row.\<close>

definition group_rows :: "(string \<times> row) list \<Rightarrow> edge list \<Rightarrow> (real \<times> real \<times> real) list" where
  "group_rows congestion edges =
     List.map_filter
       (\<lambda>e. case map_of congestion (e_id e) of
               None \<Rightarrow> None
             | Some r \<Rightarrow> Some (mean_speed_rel r, peak_flow r, e_length e))
       (group_edges edges)"

definition group_weight :: "(string \<times> row) list \<Rightarrow> edge list \<Rightarrow> real" where
  "group_weight congestion edges = sum_list (map (\<lambda>(s, f, w). w) (group_rows congestion edges))"

record feature =
  coordinates :: "point list"
  speed_ratio :: real
  f_peak_flow :: int
  color :: "int list"
  n_lanes :: nat
  is_roundabout :: bool

text \<open>Line 174: \<^verbatim>\<open>off = (li-(n_lanes-1)/2.0)*3.2\<close>\<close>

definition lane_offset :: "nat \<Rightarrow> nat \<Rightarrow> real" where
  "lane_offset nl li = (real li - (real nl - 1) / 2) * 3.2"

text \<open>
  Lines 145-178: the body of the loop over the groups. \<open>nl\<close> is the lane count of the
  group key, \<open>edges\<close> the edges of the group, \<open>roundabout_edges\<close> the ids of the edges
  that belong to a roundabout.
\<close>

definition group_features :: "(point \<Rightarrow> point) \<Rightarrow> (string \<times> row) list \<Rightarrow> string list \<Rightarrow> nat \<Rightarrow> edge list \<Rightarrow> pyerr + feature list" where
  "group_features conv congestion roundabout_edges nl edges =
     (let merged = group_merged conv edges;
          rws = group_rows congestion edges
      in if length merged < 2 then Inr []
         else if rws = [] then Inr []
         else
           (let W = group_weight congestion edges
            in case py_div (sum_list (map (\<lambda>(s, f, w). s * w) rws)) W of
                 Inl e \<Rightarrow> Inl e
               | Inr avg_sr \<Rightarrow>
                   (case py_div (sum_list (map (\<lambda>(s, f, w). f * w) rws)) W of
                      Inl e \<Rightarrow> Inl e
                    | Inr avg_flow \<Rightarrow>
                        (let props = \<lparr>coordinates = merged,
                                       speed_ratio = py_round avg_sr 3,
                                       f_peak_flow = py_int avg_flow,
                                       color = sr_to_color avg_sr,
                                       n_lanes = nl,
                                       is_roundabout =
                                         list_ex (\<lambda>e. e_id e \<in> set roundabout_edges)
                                           (group_edges edges)\<rparr>
                         in if nl = 1 then Inr [props]
                            else collect
                                   (\<lambda>li. case offset_line merged (lane_offset nl li) of
                                            Inl e \<Rightarrow> Inl e
                                          | Inr cs \<Rightarrow> Inr (props\<lparr>coordinates := cs\<rparr>))
                                   [0..<nl]))))"

section \<open>postprocess.py, step 5: validation against reference speeds\<close>

text \<open>
  A corridor is \<^verbatim>\<open>{'bbox': (lon0, lon1, lat0, lat1), 'google': speed}\<close>. The names of
  the six corridors are labels only; they are written here without diacritics and with
  \<open>->\<close> for the arrow.
\<close>

record corridor =
  bbox :: "real \<times> real \<times> real \<times> real"
  google :: real

definition ground_truth :: "(string \<times> corridor) list" where
  "ground_truth =
     [(''Calea Iesilor -> Centru'', \<lparr>bbox = (28.830, 28.855, 46.960, 46.975), google = 8.6\<rparr>),
      (''Botanica -> Primarie'', \<lparr>bbox = (28.840, 28.870, 46.955, 46.990), google = 7.1\<rparr>),
      (''Moscova -> UTM'', \<lparr>bbox = (28.845, 28.870, 47.005, 47.030), google = 8.8\<rparr>),
      (''Alba Iulia -> Bd. Dacia'', \<lparr>bbox = (28.800, 28.860, 47.005, 47.045), google = 10.7\<rparr>),
      (''Ciocana -> Centru'', \<lparr>bbox = (28.890, 28.950, 46.990, 47.030), google = 9.7\<rparr>),
      (''Muncesti -> Bd. Stefan'', \<lparr>bbox = (28.820, 28.865, 46.950, 46.985), google = 12.5\<rparr>)]"

text \<open>
  Lines 230-236: the representative point of a segment is the first vertex of its shape;
  a segment unknown to the network, or with an empty shape, is skipped by the bare
  \<^verbatim>\<open>except\<close>.
\<close>

definition edge_coords :: "(string \<Rightarrow> edge option) \<Rightarrow> (point \<Rightarrow> point) \<Rightarrow> row list \<Rightarrow> (string \<times> real \<times> real \<times> real) list" where
  "edge_coords net conv rows =
     List.map_filter
       (\<lambda>r. case net (edge_id r) of
               None \<Rightarrow> None
             | Some e \<Rightarrow>
                 (case e_shape e of
                    [] \<Rightarrow> None
                  | p # ps \<Rightarrow> Some (edge_id r, fst (conv p), snd (conv p), mean_speed_kmh r)))
       rows"

text \<open>
  The status printed for a corridor: \<open>GOOD\<close> (the spec's verdict "good"), \<open>HIGH\<close>
  ("needs tuning"), \<open>TOO_FAST\<close> ("model under-congests"), \<open>NO_DATA\<close> ("no data").
\<close>

datatype status = GOOD | HIGH | TOO_FAST | NO_DATA

record report =
  sim :: "real option"
  ratio :: "real option"
  verdict :: status

text \<open>Lines 242-243: the speeds of the segments whose point lies in the box.\<close>

definition corridor_speeds :: "corridor \<Rightarrow> (string \<times> real \<times> real \<times> real) list \<Rightarrow> real list" where
  "corridor_speeds info ec =
     (case bbox info of (lon0, lon1, lat0, lat1) \<Rightarrow>
        map (\<lambda>(eid, lon, lat, spd). spd)
          (filter (\<lambda>(eid, lon, lat, spd). lon0 \<le> lon \<and> lon \<le> lon1 \<and> lat0 \<le> lat \<and> lat \<le> lat1) ec))"

text \<open>Lines 244-250: the body of the validation loop for one corridor.\<close>

definition validate :: "corridor \<Rightarrow> (string \<times> real \<times> real \<times> real) list \<Rightarrow> pyerr + report" where
  "validate info ec =
     (let speeds = corridor_speeds info ec
      in if speeds \<noteq> [] then
           (case py_div (sum_list speeds) (real (length speeds)) of
              Inl e \<Rightarrow> Inl e
            | Inr sm \<Rightarrow>
                (case py_div sm (google info) of
                   Inl e \<Rightarrow> Inl e
                 | Inr rt \<Rightarrow>
                     Inr \<lparr>sim = Some sm, ratio = Some rt,
                          verdict = (if rt < 1.5 then GOOD
                                     else if rt < 2.5 then HIGH else TOO_FAST)\<rparr>))
         else Inr \<lparr>sim = None, ratio = None, verdict = NO_DATA\<rparr>)"

text \<open>
  Edges for the examples: the two parts \<open>12#0\<close> and \<open>12#1\<close> of a two-lane road along
  the x axis, whose shapes share the point \<open>(1, 0)\<close>, and an edge with a one-point shape.
\<close>

definition edge_12_0 :: edge where
  "edge_12_0 = \<lparr>e_id = ''12#0'', e_speed = 13.89, e_length = 100,
                 e_shape = [(0, 0), (1, 0)], e_lanes = 2\<rparr>"

definition edge_12_1 :: edge where
  "edge_12_1 = \<lparr>e_id = ''12#1'', e_speed = 13.89, e_length = 50,
                 e_shape = [(1, 0), (2, 0)], e_lanes = 2\<rparr>"

definition edge_one_point :: edge where
  "edge_one_point = \<lparr>e_id = ''9'', e_speed = 13.89, e_length = 10,
                      e_shape = [(0, 0)], e_lanes = 2\<rparr>"

text \<open>Rows for the two example edges.\<close>

definition congestion_two :: "(string \<times> row) list" where
  "congestion_two =
     [(''12#0'', \<lparr>edge_id = ''12#0'', mean_speed_kmh = 25, mean_speed_rel = 0.5,
                  freeflow_kmh = 50, length_m = 100, sample_count = 8, peak_flow = 2\<rparr>),
      (''12#1'', \<lparr>edge_id = ''12#1'', mean_speed_kmh = 40, mean_speed_rel = 0.8,
                  freeflow_kmh = 50, length_m = 50, sample_count = 4, peak_flow = 1\<rparr>)]"

text \<open>
  The scenario of the spec: a corridor with reference speed 10 km/h whose box contains
  the first shape vertex of one aggregated segment, at 20 km/h. Two more rows are
  there to be left out: a segment whose first vertex \<open>(1, 0)\<close> lies outside the box, and
  a segment that the network does not know.
\<close>

definition scenario_corridor :: corridor where
  "scenario_corridor = \<lparr>bbox = (- 0.5, 0.5, - 0.5, 0.5), google = 10\<rparr>"

definition scenario_net :: "string \<Rightarrow> edge option" where
  "scenario_net eid =
     (if eid = ''12#0'' then Some edge_12_0
      else if eid = ''12#1'' then Some edge_12_1
      else None)"

definition scenario_rows :: "row list" where
  "scenario_rows =
     [\<lparr>edge_id = ''12#0'', mean_speed_kmh = 20, mean_speed_rel = 0.4, freeflow_kmh = 50,
       length_m = 100, sample_count = 8, peak_flow = 2\<rparr>,
      \<lparr>edge_id = ''12#1'', mean_speed_kmh = 40, mean_speed_rel = 0.8, freeflow_kmh = 50,
       length_m = 50, sample_count = 4, peak_flow = 1\<rparr>,
      \<lparr>edge_id = ''99'', mean_speed_kmh = 60, mean_speed_rel = 1.2, freeflow_kmh = 50,
       length_m = 50, sample_count = 4, peak_flow = 1\<rparr>]"

text \<open>
  Lines whose attribute is made of digits and dots but is not a float literal.
\<close>

definition bad_time_line :: string where
  "bad_time_line = timestep_line ''1.2.3''"

definition bad_speed_line :: string where
  "bad_speed_line = vehicle_line ''veh0'' ''100.5'' ''200.25'' ''12#0_1'' ''1.2.3''"

text \<open>
  A crowded trace: one boundary line at 07:00:00 followed, for each of \<open>n\<close> vehicles,
  by five sample lines. The ids are \<open>a\<close>, \<open>aa\<close>, \<open>aaa\<close>, ...; \<open>crowd_table n\<close> is the
  table the trajectory scan of \<^verbatim>\<open>postprocess.py\<close> builds from it.
\<close>

definition crowd_id :: "nat \<Rightarrow> string" where
  "crowd_id i = replicate (Suc i) (CHR ''a'')"

definition crowd_line :: "nat \<Rightarrow> string" where
  "crowd_line i = vehicle_line (crowd_id i) ''1'' ''2'' ''e_0'' ''3''"

definition crowd_trace :: "nat \<Rightarrow> string list" where
  "crowd_trace n =
     timestep_line ''25200.00'' # concat (map (\<lambda>i. replicate 5 (crowd_line i)) [0..<n])"

definition crowd_wp :: waypoint where
  "crowd_wp = \<lparr>wp_time = 25200, wp_x = 1, wp_y = 2, wp_speed = 10.8\<rparr>"

definition crowd_table :: "nat \<Rightarrow> vehicles" where
  "crowd_table n = map (\<lambda>i. (crowd_id i, replicate 5 crowd_wp)) [0..<n]"

section \<open>Evaluation of the patterns on concrete lines\<close>

lemmas str_eval = attr_def timestep_line_def vehicle_line_def dquote_def
  is_digit_def digit_or_dot_def not_quote_def is_word_def match_here_def
  RE_TIME_def RE_LANE_def RE_SPEED_def RE_VID_def RE_X_def RE_Y_def
  line_time_def py_float_def digits_val_def

section \<open>The early stop of the trajectory scans\<close>

lemma deckgl_step_time:
  "line_time l = Some g \<Longrightarrow> deckgl_step s l =
     (case py_float g of Inl e \<Rightarrow> Inl e
      | Inr t \<Rightarrow> Inr (if of_int (MORNING_END + BUFFER) < t then Break else Continue,
                   s\<lparr>cur_time := t, in_window := (of_int (MORNING_START - BUFFER) \<le> t
                                            \<and> t \<le> of_int (MORNING_END + BUFFER))\<rparr>))"
  by (auto simp: line_time_def deckgl_step_def Let_def split: if_splits sum.splits)

lemma deckgl_step_outside:
  "line_time l = None \<Longrightarrow> \<not> in_window s \<Longrightarrow> deckgl_step s l = Inr (Continue, s)"
  by (auto simp: line_time_def deckgl_step_def split: if_splits)

lemma deckgl_step_Break:
  "deckgl_step s l = Inr (Break, s') \<Longrightarrow> \<exists>g. line_time l = Some g"
  by (cases "line_time l")
     (auto simp: line_time_def deckgl_step_def
           split: if_splits option.splits sum.splits prod.splits)

lemma traj_step_time:
  "line_time l = Some g \<Longrightarrow> traj_step s l =
     (case py_float g of Inl e \<Rightarrow> Inl e
      | Inr t \<Rightarrow> Inr (if of_int (MORNING_END + 120) < t then Break else Continue,
                   s\<lparr>cur_time := t\<rparr>))"
  by (auto simp: line_time_def traj_step_def Let_def split: if_splits sum.splits)

lemma traj_step_outside:
  "line_time l = None \<Longrightarrow> of_int (MORNING_END + 60) < cur_time s \<Longrightarrow>
   traj_step s l = Inr (Continue, s)"
  by (auto simp: line_time_def traj_step_def split: if_splits)

lemma traj_step_Break:
  "traj_step s l = Inr (Break, s') \<Longrightarrow> \<exists>g. line_time l = Some g"
  by (cases "line_time l")
     (auto simp: line_time_def traj_step_def
           split: if_splits option.splits sum.splits prod.splits)

lemma monotone_trace_Cons_Some:
  "line_time l = Some g \<Longrightarrow> monotone_trace (l # ls) \<Longrightarrow>
   \<exists>t ts. py_float g = Inr t \<and> trace_times ls = Some ts \<and> sorted ts \<and> (\<forall>u\<in>set ts. t \<le> u)"
  by (auto simp: monotone_trace_def split: sum.splits option.splits)

lemma monotone_trace_tl: "monotone_trace (l # ls) \<Longrightarrow> monotone_trace ls"
  by (auto simp: monotone_trace_def split: sum.splits option.splits)

text \<open>
  Once the flag \<open>in_window\<close> is off and every later time is past the window, reading
  on changes nothing in the table and raises nothing.
\<close>

lemma deckgl_full_past:
  "\<not> in_window s \<Longrightarrow> trace_times ls = Some ts \<Longrightarrow>
   \<forall>t\<in>set ts. of_int (MORNING_END + BUFFER) < t \<Longrightarrow>
   \<exists>s'. deckgl_scan_full s ls = Inr s' \<and> vehicles s' = vehicles s"
proof (induction ls arbitrary: s ts)
  case Nil
  then show ?case by simp
next
  case (Cons l ls)
  show ?case
  proof (cases "line_time l")
    case None
    with Cons.prems have "deckgl_step s l = Inr (Continue, s)" "trace_times ls = Some ts"
      by (simp_all add: deckgl_step_outside)
    with Cons.IH[of s ts] Cons.prems show ?thesis by simp
  next
    case (Some g)
    with Cons.prems obtain t ts' where
      t: "py_float g = Inr t" "trace_times ls = Some ts'" "ts = t # ts'"
      by (auto split: sum.splits)
    let ?s' = "s\<lparr>cur_time := t, in_window := (of_int (MORNING_START - BUFFER) \<le> t
                                            \<and> t \<le> of_int (MORNING_END + BUFFER))\<rparr>"
    from Cons.prems t have late: "of_int (MORNING_END + BUFFER) < t" by simp
    have "\<exists>s'. deckgl_scan_full ?s' ls = Inr s' \<and> vehicles s' = vehicles ?s'"
    proof (rule Cons.IH[of ?s' ts'])
      show "\<not> in_window ?s'" using late by simp
      show "trace_times ls = Some ts'" by (rule t(2))
      show "\<forall>t\<in>set ts'. of_int (MORNING_END + BUFFER) < t" using Cons.prems(3) t(3) by simp
    qed
    then show ?thesis using Some t by (simp add: deckgl_step_time)
  qed
qed

lemma traj_full_past:
  "of_int (MORNING_END + 60) < cur_time s \<Longrightarrow> trace_times ls = Some ts \<Longrightarrow>
   \<forall>t\<in>set ts. of_int (MORNING_END + 60) < t \<Longrightarrow>
   \<exists>s'. traj_scan_full s ls = Inr s' \<and> vehicles s' = vehicles s"
proof (induction ls arbitrary: s ts)
  case Nil
  then show ?case by simp
next
  case (Cons l ls)
  show ?case
  proof (cases "line_time l")
    case None
    with Cons.prems have "traj_step s l = Inr (Continue, s)" "trace_times ls = Some ts"
      by (simp_all add: traj_step_outside)
    with Cons.IH[of s ts] Cons.prems show ?thesis by simp
  next
    case (Some g)
    with Cons.prems obtain t ts' where
      t: "py_float g = Inr t" "trace_times ls = Some ts'" "ts = t # ts'"
      by (auto split: sum.splits)
    from Cons.prems t have late: "of_int (MORNING_END + 60) < t" by simp
    have "\<exists>s'. traj_scan_full (s\<lparr>cur_time := t\<rparr>) ls = Inr s'
               \<and> vehicles s' = vehicles (s\<lparr>cur_time := t\<rparr>)"
    proof (rule Cons.IH[of "s\<lparr>cur_time := t\<rparr>" ts'])
      show "of_int (MORNING_END + 60) < cur_time (s\<lparr>cur_time := t\<rparr>)" using late by simp
      show "trace_times ls = Some ts'" by (rule t(2))
      show "\<forall>t\<in>set ts'. of_int (MORNING_END + 60) < t" using Cons.prems(3) t(3) by simp
    qed
    then show ?thesis using Some t by (simp add: traj_step_time)
  qed
qed

lemma deckgl_early_eq_full:
  "monotone_trace ls \<Longrightarrow> table_of (deckgl_scan s ls) = table_of (deckgl_scan_full s ls)"
proof (induction ls arbitrary: s)
  case Nil
  then show ?case by simp
next
  case (Cons l ls)
  have mono: "monotone_trace ls" using Cons.prems by (rule monotone_trace_tl)
  show ?case
  proof (cases "deckgl_step s l")
    case (Inl e)
    then show ?thesis by simp
  next
    case (Inr cs)
    obtain c s' where cs: "cs = (c, s')" by (cases cs)
    show ?thesis
    proof (cases c)
      case Continue
      with Inr cs Cons.IH[OF mono, of s'] show ?thesis by simp
    next
      case Break
      from Break Inr cs obtain g where g: "line_time l = Some g"
        using deckgl_step_Break by blast
      from monotone_trace_Cons_Some[OF g Cons.prems] obtain t ts where
        t: "py_float g = Inr t" "trace_times ls = Some ts" "\<forall>u\<in>set ts. t \<le> u" by blast
      from Inr cs Break g t have late: "of_int (MORNING_END + BUFFER) < t"
        and s': "s' = s\<lparr>cur_time := t, in_window := (of_int (MORNING_START - BUFFER) \<le> t
                                            \<and> t \<le> of_int (MORNING_END + BUFFER))\<rparr>"
        by (auto simp: deckgl_step_time split: if_splits)
      have "\<exists>s''. deckgl_scan_full s' ls = Inr s'' \<and> vehicles s'' = vehicles s'"
      proof (rule deckgl_full_past[of s' ls ts])
        show "\<not> in_window s'" using late s' by simp
        show "trace_times ls = Some ts" by (rule t(2))
        show "\<forall>u\<in>set ts. of_int (MORNING_END + BUFFER) < u" using t(3) late by fastforce
      qed
      then show ?thesis using Inr cs Break by (auto simp: table_of_def)
    qed
  qed
qed

lemma traj_early_eq_full:
  "monotone_trace ls \<Longrightarrow> table_of (traj_scan s ls) = table_of (traj_scan_full s ls)"
proof (induction ls arbitrary: s)
  case Nil
  then show ?case by simp
next
  case (Cons l ls)
  have mono: "monotone_trace ls" using Cons.prems by (rule monotone_trace_tl)
  show ?case
  proof (cases "traj_step s l")
    case (Inl e)
    then show ?thesis by simp
  next
    case (Inr cs)
    obtain c s' where cs: "cs = (c, s')" by (cases cs)
    show ?thesis
    proof (cases c)
      case Continue
      with Inr cs Cons.IH[OF mono, of s'] show ?thesis by simp
    next
      case Break
      from Break Inr cs obtain g where g: "line_time l = Some g"
        using traj_step_Break by blast
      from monotone_trace_Cons_Some[OF g Cons.prems] obtain t ts where
        t: "py_float g = Inr t" "trace_times ls = Some ts" "\<forall>u\<in>set ts. t \<le> u" by blast
      from Inr cs Break g t have late: "of_int (MORNING_END + 120) < t"
        and s': "s' = s\<lparr>cur_time := t\<rparr>"
        by (auto simp: traj_step_time split: if_splits)
      have "\<exists>s''. traj_scan_full s' ls = Inr s'' \<and> vehicles s'' = vehicles s'"
      proof (rule traj_full_past[of s' ls ts])
        show "of_int (MORNING_END + 60) < cur_time s'" using late s' by simp
        show "trace_times ls = Some ts" by (rule t(2))
        show "\<forall>u\<in>set ts. of_int (MORNING_END + 60) < u" using t(3) late by fastforce
      qed
      then show ?thesis using Inr cs Break by (auto simp: table_of_def)
    qed
  qed
qed

text \<open>
  The times have to be float literals up to the end of the file: the scan of the entire
  file converts a time that the early stop never reads.
\<close>

lemma early_stop_hides_later_error:
  "table_of (deckgl_scan dstate0 [timestep_line ''32600.00'', timestep_line ''1.2.3'']) = Inr []
   \<and> table_of (deckgl_scan_full dstate0 [timestep_line ''32600.00'', timestep_line ''1.2.3''])
       = Inl ValueError"
  by (simp add: str_eval deckgl_step_def dstate0_def table_of_def
        MORNING_START_def MORNING_END_def BUFFER_def)

text \<open>
  Claim C1. For every trace whose timestep times never decrease (each extracted time
  attribute being a float literal), the trajectory scan that stops at the first timestep
  past the window end plus the exit tolerance (60 s in \<^verbatim>\<open>make_deckgl.py\<close>, 120 s in
  \<^verbatim>\<open>postprocess.py\<close>) ends with the same per-vehicle waypoint table, or the same
  exception, as the scan of the entire file.
\<close>

theorem early_stop_equals_full_scan:
  assumes "monotone_trace trace"
  shows "table_of (deckgl_scan dstate0 trace) = table_of (deckgl_scan_full dstate0 trace)
       \<and> table_of (traj_scan tstate0 trace) = table_of (traj_scan_full tstate0 trace)"
  using assms by (simp add: deckgl_early_eq_full traj_early_eq_full)

theorem early_stop_equals_full_scan_witness:
  "monotone_trace trace_past_window
   \<and> table_of (deckgl_scan dstate0 trace_past_window)
       = table_of (deckgl_scan_full dstate0 trace_past_window)
   \<and> table_of (traj_scan tstate0 trace_past_window)
       = table_of (traj_scan_full tstate0 trace_past_window)"
proof -
  have m: "monotone_trace trace_past_window"
    by (simp add: trace_past_window_def monotone_trace_def str_eval)
  from m early_stop_equals_full_scan[OF m] show ?thesis by simp
qed

section \<open>Waypoint times of the output trajectories\<close>

lemma py_float_nonneg: "py_float g = Inr t \<Longrightarrow> 0 \<le> t"
  by (auto simp: py_float_def Let_def split: list.splits if_splits)

lemma trace_times_nonneg: "trace_times ls = Some ts \<Longrightarrow> \<forall>t\<in>set ts. 0 \<le> t"
proof (induction ls arbitrary: ts)
  case Nil
  then show ?case by simp
next
  case (Cons l ls)
  then show ?case
    by (auto split: option.splits sum.splits dest: py_float_nonneg)
qed

lemma py_int_mono: "a \<le> b \<Longrightarrow> py_int a \<le> py_int b"
  unfolding py_int_def
  by (smt (verit) ceiling_mono floor_mono ceiling_le_zero zero_le_floor)

lemma py_int_in_range:
  "of_int (MORNING_START - BUFFER) \<le> t \<Longrightarrow> t \<le> of_int (MORNING_END + BUFFER) \<Longrightarrow>
   in_range (py_int t)"
  unfolding py_int_def in_range_def MORNING_START_def MORNING_END_def BUFFER_def
  by (auto simp: le_floor_iff floor_le_iff)

lemma mk_waypoint_time: "mk_waypoint nd t xg yg sg = Inr w \<Longrightarrow> wp_time w = py_int t"
  by (auto simp: mk_waypoint_def split: sum.splits)

lemma in_update_cases:
  "(k, v) \<in> set (AList.update k' v' al) \<Longrightarrow> (k = k' \<and> v = v') \<or> (k, v) \<in> set al"
  by (induction al) (auto split: if_splits)

lemma traj_inv_mono: "traj_inv vs u \<Longrightarrow> u \<le> u' \<Longrightarrow> traj_inv vs u'"
  by (fastforce simp: traj_inv_def)

lemma traj_inv_ensure: "traj_inv vs u \<Longrightarrow> traj_inv (ensure_vehicle vid vs) u"
  by (auto simp: traj_inv_def ensure_vehicle_def dest!: in_update_cases)

lemma traj_inv_append:
  assumes "traj_inv vs u" "append_waypoint vid w vs = Inr vs'"
    "in_range (wp_time w)" "wp_time w = u"
  shows "traj_inv vs' u"
proof -
  from assms(2) obtain ws where ws: "map_of vs vid = Some ws"
    "vs' = AList.update vid (ws @ [w]) vs"
    by (auto simp: append_waypoint_def split: option.splits)
  from ws(1) have mem: "(vid, ws) \<in> set vs" by (rule map_of_SomeD)
  with assms(1) have old: "sorted (map wp_time ws)"
    "\<forall>x\<in>set ws. in_range (wp_time x) \<and> wp_time x \<le> u"
    by (auto simp: traj_inv_def)
  have new: "sorted (map wp_time (ws @ [w]))"
    "\<forall>x\<in>set (ws @ [w]). in_range (wp_time x) \<and> wp_time x \<le> u"
    using old assms(3,4) by (auto simp: sorted_append)
  show ?thesis
    unfolding traj_inv_def ws(2)
  proof (clarify)
    fix k v assume "(k, v) \<in> set (AList.update vid (ws @ [w]) vs)"
    then have "(k = vid \<and> v = ws @ [w]) \<or> (k, v) \<in> set vs" by (rule in_update_cases)
    then show "sorted (map wp_time v) \<and> (\<forall>w\<in>set v. in_range (wp_time w) \<and> wp_time w \<le> u)"
      using new assms(1) by (auto simp: traj_inv_def)
  qed
qed

lemma deckgl_step_sample:
  "line_time l = None \<Longrightarrow> deckgl_step s l = Inr (c, s') \<Longrightarrow>
   s' = s \<or> (in_window s \<and> (\<exists>vid w xg yg sg vs'.
       mk_waypoint 5 (cur_time s) xg yg sg = Inr w
     \<and> append_waypoint vid w (ensure_vehicle vid (vehicles s)) = Inr vs'
     \<and> s' = s\<lparr>vehicles := vs'\<rparr>))"
  by (auto simp: deckgl_step_def line_time_def Let_def
           split: if_splits option.splits sum.splits) blast

lemma traj_step_sample:
  "line_time l = None \<Longrightarrow> traj_step s l = Inr (c, s') \<Longrightarrow>
   s' = s \<or> (of_int (MORNING_START - 60) \<le> cur_time s \<and> cur_time s \<le> of_int (MORNING_END + 60)
     \<and> (\<exists>vid w xg yg sg vs'.
       mk_waypoint 6 (cur_time s) xg yg sg = Inr w
     \<and> append_waypoint vid w (ensure_vehicle vid (vehicles s)) = Inr vs'
     \<and> s' = s\<lparr>vehicles := vs'\<rparr>))"
  by (auto simp: traj_step_def line_time_def Let_def
           split: if_splits option.splits sum.splits) blast

lemma traj_inv_sample:
  assumes "traj_inv vs (py_int t)"
    "of_int (MORNING_START - BUFFER) \<le> t" "t \<le> of_int (MORNING_END + BUFFER)"
    "mk_waypoint nd t xg yg sg = Inr w"
    "append_waypoint vid w (ensure_vehicle vid vs) = Inr vs'"
  shows "traj_inv vs' (py_int t)"
proof (rule traj_inv_append[OF _ assms(5)])
  show "traj_inv (ensure_vehicle vid vs) (py_int t)" using assms(1) by (rule traj_inv_ensure)
  show "wp_time w = py_int t" using assms(4) by (rule mk_waypoint_time)
  then show "in_range (wp_time w)" using py_int_in_range[OF assms(2,3)] by simp
qed

lemma deckgl_step_inv:
  assumes "dinv s" "deckgl_step s l = Inr (c, s')"
    "\<And>g t. line_time l = Some g \<Longrightarrow> py_float g = Inr t \<Longrightarrow> cur_time s \<le> t"
  shows "dinv s'"
proof (cases "line_time l")
  case None
  from deckgl_step_sample[OF None assms(2)] show ?thesis
  proof
    assume "s' = s" with assms(1) show ?thesis by simp
  next
    assume "in_window s \<and> (\<exists>vid w xg yg sg vs'.
       mk_waypoint 5 (cur_time s) xg yg sg = Inr w
     \<and> append_waypoint vid w (ensure_vehicle vid (vehicles s)) = Inr vs'
     \<and> s' = s\<lparr>vehicles := vs'\<rparr>)"
    then obtain vid w xg yg sg vs' where h: "in_window s"
      "mk_waypoint 5 (cur_time s) xg yg sg = Inr w"
      "append_waypoint vid w (ensure_vehicle vid (vehicles s)) = Inr vs'"
      "s' = s\<lparr>vehicles := vs'\<rparr>" by blast
    from assms(1) h(1) have w: "traj_inv (vehicles s) (py_int (cur_time s))"
      "of_int (MORNING_START - BUFFER) \<le> cur_time s" "cur_time s \<le> of_int (MORNING_END + BUFFER)"
      by (simp_all add: dinv_def)
    from traj_inv_sample[OF w h(2,3)] w(2,3) h(4) show ?thesis by (simp add: dinv_def)
  qed
next
  case (Some g)
  with assms(2) obtain t where t: "py_float g = Inr t"
    "s' = s\<lparr>cur_time := t, in_window := (of_int (MORNING_START - BUFFER) \<le> t
                                            \<and> t \<le> of_int (MORNING_END + BUFFER))\<rparr>"
    by (auto simp: deckgl_step_time split: sum.splits)
  from assms(3)[OF Some t(1)] have "py_int (cur_time s) \<le> py_int t" by (rule py_int_mono)
  with assms(1) have "traj_inv (vehicles s) (py_int t)"
    by (auto simp: dinv_def intro: traj_inv_mono)
  then show ?thesis using t(2) by (simp add: dinv_def)
qed

lemma traj_step_inv:
  assumes "traj_inv (vehicles s) (py_int (cur_time s))" "traj_step s l = Inr (c, s')"
    "\<And>g t. line_time l = Some g \<Longrightarrow> py_float g = Inr t \<Longrightarrow> cur_time s \<le> t"
  shows "traj_inv (vehicles s') (py_int (cur_time s'))"
proof (cases "line_time l")
  case None
  from traj_step_sample[OF None assms(2)] show ?thesis
  proof
    assume "s' = s" with assms(1) show ?thesis by simp
  next
    assume "of_int (MORNING_START - 60) \<le> cur_time s \<and> cur_time s \<le> of_int (MORNING_END + 60)
     \<and> (\<exists>vid w xg yg sg vs'.
       mk_waypoint 6 (cur_time s) xg yg sg = Inr w
     \<and> append_waypoint vid w (ensure_vehicle vid (vehicles s)) = Inr vs'
     \<and> s' = s\<lparr>vehicles := vs'\<rparr>)"
    then obtain vid w xg yg sg vs' where
      h: "mk_waypoint 6 (cur_time s) xg yg sg = Inr w"
      "append_waypoint vid w (ensure_vehicle vid (vehicles s)) = Inr vs'"
      "s' = s\<lparr>vehicles := vs'\<rparr>"
      and w: "of_int (MORNING_START - BUFFER) \<le> cur_time s"
        "cur_time s \<le> of_int (MORNING_END + BUFFER)"
      by (auto simp: BUFFER_def)
    from traj_inv_sample[OF assms(1) w h(1,2)] h(3) show ?thesis by simp
  qed
next
  case (Some g)
  with assms(2) obtain t where t: "py_float g = Inr t" "s' = s\<lparr>cur_time := t\<rparr>"
    by (auto simp: traj_step_time split: sum.splits)
  from assms(3)[OF Some t(1)] have "py_int (cur_time s) \<le> py_int t" by (rule py_int_mono)
  with assms(1) have "traj_inv (vehicles s) (py_int t)" by (auto intro: traj_inv_mono)
  then show ?thesis using t(2) by simp
qed

lemma deckgl_scan_inv:
  "dinv s \<Longrightarrow> trace_times ls = Some ts \<Longrightarrow> sorted ts \<Longrightarrow> \<forall>t\<in>set ts. cur_time s \<le> t \<Longrightarrow>
   deckgl_scan s ls = Inr s' \<Longrightarrow> dinv s'"
proof (induction ls arbitrary: s ts)
  case Nil
  then show ?case by simp
next
  case (Cons l ls)
  from Cons.prems(5) obtain c s1 where step: "deckgl_step s l = Inr (c, s1)"
    by (auto split: sum.splits)
  have le: "\<And>g t. line_time l = Some g \<Longrightarrow> py_float g = Inr t \<Longrightarrow> cur_time s \<le> t"
    using Cons.prems(2,4) by (auto split: option.splits)
  have inv1: "dinv s1" by (rule deckgl_step_inv[OF Cons.prems(1) step le])
  show ?case
  proof (cases c)
    case Break
    with step Cons.prems(5) inv1 show ?thesis by simp
  next
    case Continue
    with step Cons.prems(5) have rest: "deckgl_scan s1 ls = Inr s'" by simp
    show ?thesis
    proof (cases "line_time l")
      case None
      with deckgl_step_sample[OF None step] have "cur_time s1 = cur_time s" by auto
      with None Cons.prems Cons.IH[OF inv1 _ _ _ rest, of ts] show ?thesis by simp
    next
      case (Some g)
      with Cons.prems(2) obtain t ts' where
        t: "py_float g = Inr t" "trace_times ls = Some ts'" "ts = t # ts'"
        by (auto split: sum.splits)
      from step Some t(1) have "cur_time s1 = t" by (auto simp: deckgl_step_time)
      with Cons.prems(3) t(3) have "sorted ts'" "\<forall>u\<in>set ts'. cur_time s1 \<le> u" by auto
      from Cons.IH[OF inv1 t(2) this rest] show ?thesis .
    qed
  qed
qed

lemma traj_scan_inv:
  "traj_inv (vehicles s) (py_int (cur_time s)) \<Longrightarrow> trace_times ls = Some ts \<Longrightarrow> sorted ts \<Longrightarrow>
   \<forall>t\<in>set ts. cur_time s \<le> t \<Longrightarrow> traj_scan s ls = Inr s' \<Longrightarrow>
   traj_inv (vehicles s') (py_int (cur_time s'))"
proof (induction ls arbitrary: s ts)
  case Nil
  then show ?case by simp
next
  case (Cons l ls)
  from Cons.prems(5) obtain c s1 where step: "traj_step s l = Inr (c, s1)"
    by (auto split: sum.splits)
  have le: "\<And>g t. line_time l = Some g \<Longrightarrow> py_float g = Inr t \<Longrightarrow> cur_time s \<le> t"
    using Cons.prems(2,4) by (auto split: option.splits)
  have inv1: "traj_inv (vehicles s1) (py_int (cur_time s1))"
    by (rule traj_step_inv[OF Cons.prems(1) step le])
  show ?case
  proof (cases c)
    case Break
    with step Cons.prems(5) inv1 show ?thesis by simp
  next
    case Continue
    with step Cons.prems(5) have rest: "traj_scan s1 ls = Inr s'" by simp
    show ?thesis
    proof (cases "line_time l")
      case None
      with traj_step_sample[OF None step] have "cur_time s1 = cur_time s" by auto
      with None Cons.prems Cons.IH[OF inv1 _ _ _ rest, of ts] show ?thesis by simp
    next
      case (Some g)
      with Cons.prems(2) obtain t ts' where
        t: "py_float g = Inr t" "trace_times ls = Some ts'" "ts = t # ts'"
        by (auto split: sum.splits)
      from step Some t(1) have "cur_time s1 = t" by (auto simp: traj_step_time)
      with Cons.prems(3) t(3) have "sorted ts'" "\<forall>u\<in>set ts'. cur_time s1 \<le> u" by auto
      from Cons.IH[OF inv1 t(2) this rest] show ?thesis .
    qed
  qed
qed

text \<open>Finalization only selects entries of the table.\<close>

lemma deckgl_valid_subset: "set (deckgl_valid vs) \<subseteq> set vs"
  by (auto simp: deckgl_valid_def)

lemma deckgl_cap_subset: "set (deckgl_cap valid) \<subseteq> set valid"
  by (auto simp: deckgl_cap_def Let_def map_filter_def
           split: option.splits if_splits dest: map_of_SomeD)

lemma deckgl_finalize_subset: "set (deckgl_finalize vs) \<subseteq> set vs"
  unfolding deckgl_finalize_def using deckgl_cap_subset deckgl_valid_subset by blast

lemma postprocess_deckgl_subset: "set (postprocess_deckgl vs) \<subseteq> set vs"
  by (auto simp: postprocess_deckgl_def)

lemma monotone_trace_start:
  assumes "monotone_trace trace"
  obtains ts where "trace_times trace = Some ts" "sorted ts" "\<forall>t\<in>set ts. - 1 \<le> t"
proof -
  from assms obtain ts where ts: "trace_times trace = Some ts" "sorted ts"
    by (auto simp: monotone_trace_def split: option.splits)
  from trace_times_nonneg[OF ts(1)] have "\<forall>t\<in>set ts. - 1 \<le> t" by fastforce
  with ts that show ?thesis by blast
qed

lemma make_deckgl_inv:
  assumes "monotone_trace trace" "make_deckgl trace = Inr out"
  shows "traj_inv out (MORNING_END + BUFFER)"
proof -
  from assms(2) obtain s where s: "deckgl_scan dstate0 trace = Inr s"
    "out = deckgl_finalize (vehicles s)"
    by (auto simp: make_deckgl_def split: sum.splits)
  from assms(1) obtain ts where ts: "trace_times trace = Some ts" "sorted ts"
    "\<forall>t\<in>set ts. - 1 \<le> t" by (rule monotone_trace_start)
  have i0: "dinv dstate0" by (simp add: dinv_def dstate0_def traj_inv_def)
  have t0: "\<forall>t\<in>set ts. cur_time dstate0 \<le> t" using ts(3) by (simp add: dstate0_def)
  have "dinv s" by (rule deckgl_scan_inv[OF i0 ts(1) ts(2) t0 s(1)])
  then have "traj_inv (vehicles s) (py_int (cur_time s))" by (simp add: dinv_def)
  then show ?thesis
    unfolding s(2) traj_inv_def in_range_def using deckgl_finalize_subset[of "vehicles s"]
    by fastforce
qed

lemma postprocess_trips_inv:
  assumes "monotone_trace trace" "postprocess_trips trace = Inr out"
  shows "traj_inv out (MORNING_END + BUFFER)"
proof -
  from assms(2) obtain s where s: "traj_scan tstate0 trace = Inr s"
    "out = postprocess_deckgl (vehicles s)"
    by (auto simp: postprocess_trips_def split: sum.splits)
  from assms(1) obtain ts where ts: "trace_times trace = Some ts" "sorted ts"
    "\<forall>t\<in>set ts. - 1 \<le> t" by (rule monotone_trace_start)
  have i0: "traj_inv (vehicles tstate0) (py_int (cur_time tstate0))"
    by (simp add: tstate0_def traj_inv_def)
  have t0: "\<forall>t\<in>set ts. cur_time tstate0 \<le> t" using ts(3) by (simp add: tstate0_def)
  have "traj_inv (vehicles s) (py_int (cur_time s))"
    by (rule traj_scan_inv[OF i0 ts(1) ts(2) t0 s(1)])
  then show ?thesis
    unfolding s(2) traj_inv_def in_range_def using postprocess_deckgl_subset[of "vehicles s"]
    by fastforce
qed

lemmas scan_eval = deckgl_step_def traj_step_def dstate0_def tstate0_def mk_waypoint_def
  ensure_vehicle_def append_waypoint_def py_int_def py_round_def round_half_even_def
  MORNING_START_def MORNING_END_def BUFFER_def Let_def

lemmas finalize_eval = make_deckgl_def postprocess_trips_def out_times_def
  deckgl_finalize_def deckgl_valid_def deckgl_cap_def postprocess_deckgl_def
  MIN_WAYPOINTS_def MAX_VEHICLES_def

text \<open>
  Claim C3, as amended. For every trace whose timestep times never decrease, every
  trajectory in the output of either script has waypoint times that never decrease and
  that lie within \<open>[MORNING_START - BUFFER, MORNING_END + BUFFER]\<close>. The times need not
  increase strictly: see \<open>waypoint_times_not_strict\<close> below.
\<close>

theorem waypoint_times_sorted_in_window:
  assumes "monotone_trace trace"
    and "make_deckgl trace = Inr out \<or> postprocess_trips trace = Inr out"
    and "(vid, wps) \<in> set out"
  shows "sorted (map wp_time wps)
       \<and> (\<forall>w\<in>set wps. MORNING_START - BUFFER \<le> wp_time w \<and> wp_time w \<le> MORNING_END + BUFFER)"
proof -
  from assms(1,2) have "traj_inv out (MORNING_END + BUFFER)"
    using make_deckgl_inv postprocess_trips_inv by blast
  with assms(3) show ?thesis by (auto simp: traj_inv_def in_range_def)
qed

lemma trace_half_seconds_mono: "monotone_trace trace_half_seconds"
  by (simp add: trace_half_seconds_def monotone_trace_def str_eval)

lemma make_deckgl_half_seconds: "make_deckgl trace_half_seconds = Inr half_seconds_out"
  by (simp add: trace_half_seconds_def half_seconds_out_def str_eval scan_eval finalize_eval)

lemma postprocess_trips_half_seconds:
  "postprocess_trips trace_half_seconds = Inr half_seconds_out"
  by (simp add: trace_half_seconds_def half_seconds_out_def str_eval scan_eval finalize_eval)

theorem waypoint_times_sorted_in_window_witness:
  "monotone_trace trace_half_seconds
   \<and> (make_deckgl trace_half_seconds = Inr half_seconds_out
      \<or> postprocess_trips trace_half_seconds = Inr half_seconds_out)
   \<and> (''veh0'', snd (hd half_seconds_out)) \<in> set half_seconds_out
   \<and> sorted (map wp_time (snd (hd half_seconds_out)))
   \<and> list_all (\<lambda>w. MORNING_START - BUFFER \<le> wp_time w \<and> wp_time w \<le> MORNING_END + BUFFER)
        (snd (hd half_seconds_out))"
proof -
  have mem: "(''veh0'', snd (hd half_seconds_out)) \<in> set half_seconds_out"
    by (simp add: half_seconds_out_def)
  have out: "make_deckgl trace_half_seconds = Inr half_seconds_out
             \<or> postprocess_trips trace_half_seconds = Inr half_seconds_out"
    using make_deckgl_half_seconds by simp
  from waypoint_times_sorted_in_window[OF trace_half_seconds_mono out mem]
    trace_half_seconds_mono out mem
  show ?thesis unfolding list_all_iff by blast
qed

text \<open>
  Claim C3 as stated fails: with a step length of half a second the boundary times
  increase strictly, yet \<^verbatim>\<open>int(cur_time)\<close> gives two consecutive waypoints the same
  second, in the output of both scripts.
\<close>

theorem waypoint_times_not_strict:
  "monotone_trace trace_half_seconds
   \<and> out_times (make_deckgl trace_half_seconds)
       = Inr [(''veh0'', [25200, 25200, 25201, 25201, 25202])]
   \<and> out_times (postprocess_trips trace_half_seconds)
       = Inr [(''veh0'', [25200, 25200, 25201, 25201, 25202])]
   \<and> \<not> sorted_wrt (<) [25200, 25200, 25201, 25201, 25202 :: int]"
  using trace_half_seconds_mono
  by (simp add: make_deckgl_half_seconds postprocess_trips_half_seconds out_times_def
        half_seconds_out_def)

section \<open>The aggregate table\<close>

lemma dd_get_dd_add:
  "dd_get (dd_add k v d) k' = (if k' = k then dd_get d k + v else dd_get d k')"
  by (simp add: dd_get_def dd_add_def update_conv')

lemma keys_dd_add: "fst ` set (dd_add k v d) = insert k (fst ` set d)"
  by (simp add: dd_add_def dom_update)

lemma dd_get_absent: "k \<notin> fst ` set d \<Longrightarrow> dd_get d k = 0"
  by (force simp: dd_get_def split: option.splits dest: map_of_SomeD)

lemma agg_step_cases:
  assumes "agg_step s l = Inr s'"
  shows "case sample_of s l of
           None \<Rightarrow> edge_speed_sum s' = edge_speed_sum s
                    \<and> edge_speed_count s' = edge_speed_count s
         | Some (e, v) \<Rightarrow> s' = fold_sample e v s"
  using assms
  by (auto simp: agg_step_def sample_of_def Let_def
           split: if_splits option.splits sum.splits)

lemma samples_for_append:
  "samples_for e (xs @ ys) = samples_for e xs @ samples_for e ys"
  by (simp add: samples_for_def)

lemma samples_for_single:
  "samples_for e [(k, v)] = (if k = e then [v] else [])"
  by (simp add: samples_for_def)

lemma samples_for_empty_iff: "samples_for e xs = [] \<longleftrightarrow> e \<notin> fst ` set xs"
  by (induction xs) (auto simp: samples_for_def)

lemma counts_pos_dd_add: "counts_pos d \<Longrightarrow> counts_pos (dd_add k 1 d)"
  by (auto simp: counts_pos_def dd_add_def dest!: in_update_cases)

text \<open>
  What a scan adds to the accumulators: per segment, the sum and the number of the
  folded samples; the new keys are the segments of the folded samples; no count is zero.
\<close>

lemma agg_scan_accumulates:
  "agg_scan s ls = Inr s' \<Longrightarrow>
   dd_get (edge_speed_sum s') e
     = dd_get (edge_speed_sum s) e + sum_list (samples_for e (folded_samples s ls))
   \<and> dd_get (edge_speed_count s') e
     = dd_get (edge_speed_count s) e + length (samples_for e (folded_samples s ls))
   \<and> fst ` set (edge_speed_count s')
     = fst ` set (edge_speed_count s) \<union> fst ` set (folded_samples s ls)
   \<and> (counts_pos (edge_speed_count s) \<longrightarrow> counts_pos (edge_speed_count s'))"
proof (induction ls arbitrary: s)
  case Nil
  then show ?case by (simp add: samples_for_def)
next
  case (Cons l ls)
  from Cons.prems obtain s1 where step: "agg_step s l = Inr s1" and rest: "agg_scan s1 ls = Inr s'"
    by (auto split: sum.splits)
  note IH = Cons.IH[OF rest]
  show ?case
  proof (cases "sample_of s l")
    case None
    with agg_step_cases[OF step] IH step show ?thesis by simp
  next
    case (Some kv)
    obtain k v where kv0: "kv = (k, v)" by (cases kv)
    with Some agg_step_cases[OF step] have kv: "sample_of s l = Some (k, v)"
      "s1 = fold_sample k v s" by simp_all
    have s1: "edge_speed_sum s1 = dd_add k v (edge_speed_sum s)"
      "edge_speed_count s1 = dd_add k 1 (edge_speed_count s)"
      using kv(2) by (simp_all add: fold_sample_def)
    have fs: "folded_samples s (l # ls) = (k, v) # folded_samples s1 ls"
      using step kv(1) by simp
    have pos: "counts_pos (edge_speed_count s) \<Longrightarrow> counts_pos (edge_speed_count s1)"
      unfolding s1 by (rule counts_pos_dd_add)
    show ?thesis
      unfolding fs using IH pos
      by (auto simp: s1 dd_get_dd_add keys_dd_add samples_for_def)
  qed
qed

lemma mean_speeds_total:
  "counts_pos counts \<Longrightarrow>
   mean_speeds ssum counts = Inr (map (\<lambda>(k, c). (k, dd_get ssum k / real c)) counts)"
  by (induction counts) (auto simp: counts_pos_def py_div_def)

lemma map_of_mean_table:
  "map_of (map (\<lambda>(k, c). (k, f k c)) counts) e = map_option (f e) (map_of counts e)"
  by (induction counts) auto

lemma map_fst_mean_table: "map fst (map (\<lambda>(k, c). (k, f k c)) counts) = map fst counts"
  by (induction counts) auto

text \<open>
  Claim C4. After a scan that ends without an exception, the table of line 82 exists,
  and for every segment id: if no sample was folded for it, it is absent from the table;
  otherwise its mean speed is the sum of the folded speeds (in km/h) divided by their
  number. (The CSV column \<open>mean_speed_kmh\<close> is this value rounded to 2 decimals.)
\<close>

theorem mean_speed_is_sum_over_count:
  assumes "agg_scan astate0 trace = Inr s"
  shows "\<exists>tbl. mean_speed_table s = Inr tbl
           \<and> fst ` set tbl = fst ` set (folded_samples astate0 trace)
           \<and> (\<forall>edge_id. map_of tbl edge_id
                 = (if samples_for edge_id (folded_samples astate0 trace) = [] then None
                    else Some (sum_list (samples_for edge_id (folded_samples astate0 trace))
                               / real (length (samples_for edge_id (folded_samples astate0 trace))))))"
proof -
  let ?xs = "folded_samples astate0 trace"
  let ?tbl = "map (\<lambda>(k, c). (k, dd_get (edge_speed_sum s) k / real c)) (edge_speed_count s)"
  have pos0: "counts_pos (edge_speed_count astate0)" by (simp add: astate0_def counts_pos_def)
  have acc: "dd_get (edge_speed_sum s) e = sum_list (samples_for e ?xs)"
    "dd_get (edge_speed_count s) e = length (samples_for e ?xs)"
    "fst ` set (edge_speed_count s) = fst ` set ?xs"
    "counts_pos (edge_speed_count s)" for e
    using agg_scan_accumulates[OF assms, of e] pos0
    by (simp_all add: astate0_def dd_get_def)
  have tbl: "mean_speed_table s = Inr ?tbl"
    unfolding mean_speed_table_def by (rule mean_speeds_total[OF acc(4)])
  have "map fst ?tbl = map fst (edge_speed_count s)" by (rule map_fst_mean_table)
  then have "fst ` set ?tbl = fst ` set (edge_speed_count s)"
    by (metis list.set_map)
  with acc(3) have keys: "fst ` set ?tbl = fst ` set ?xs" by simp
  have look: "map_of ?tbl e
      = (if samples_for e ?xs = [] then None
         else Some (sum_list (samples_for e ?xs) / real (length (samples_for e ?xs))))" for e
  proof (cases "map_of (edge_speed_count s) e")
    case None
    then have "e \<notin> fst ` set ?xs" using acc(3) by (simp add: map_of_eq_None_iff)
    then have "samples_for e ?xs = []" by (simp add: samples_for_empty_iff)
    with None show ?thesis by (simp add: map_of_mean_table)
  next
    case (Some c)
    then have "e \<in> fst ` set ?xs" using acc(3) map_of_eq_None_iff[of "edge_speed_count s" e] by auto
    then have ne: "samples_for e ?xs \<noteq> []" by (simp add: samples_for_empty_iff)
    from Some have "dd_get (edge_speed_count s) e = c" by (simp add: dd_get_def)
    with acc(2)[of e] have "c = length (samples_for e ?xs)" by simp
    with Some ne acc(1)[of e] show ?thesis by (simp add: map_of_mean_table)
  qed
  show ?thesis
  proof (intro exI[of _ ?tbl] conjI allI)
    show "mean_speed_table s = Inr ?tbl" by (rule tbl)
    show "fst ` set ?tbl = fst ` set ?xs" by (rule keys)
    show "map_of ?tbl e
      = (if samples_for e ?xs = [] then None
         else Some (sum_list (samples_for e ?xs) / real (length (samples_for e ?xs))))" for e
      by (rule look)
  qed
qed

lemmas agg_eval = agg_step_def astate0_def fold_sample_def dd_add_def dd_get_def
  edge_of_lane_def py_int_def MORNING_START_def MORNING_END_def EVENING_START_def
  EVENING_END_def SAMPLE_EVERY_def Let_def

lemma agg_scan_agg_trace: "agg_scan astate0 agg_trace = Inr agg_trace_result"
  by (simp add: agg_trace_def agg_trace_result_def str_eval agg_eval)

theorem mean_speed_is_sum_over_count_witness:
  "agg_scan astate0 agg_trace = Inr agg_trace_result
   \<and> (\<exists>tbl. mean_speed_table agg_trace_result = Inr tbl
           \<and> fst ` set tbl = fst ` set (folded_samples astate0 agg_trace)
           \<and> (\<forall>edge_id. map_of tbl edge_id
                 = (if samples_for edge_id (folded_samples astate0 agg_trace) = [] then None
                    else Some (sum_list (samples_for edge_id (folded_samples astate0 agg_trace))
                               / real (length (samples_for edge_id (folded_samples astate0 agg_trace)))))))"
  using mean_speed_is_sum_over_count[OF agg_scan_agg_trace] agg_scan_agg_trace by simp

text \<open>
  The rows of lines 80-97 carry the same means: \<open>mean_speed_kmh\<close> is the mean of
  line 82 rounded to 2 decimals.
\<close>

lemma make_rows_means:
  "make_rows net ssum counts
     = (case mean_speeds ssum counts of
          Inl e \<Rightarrow> Inl e
        | Inr ms \<Rightarrow> Inr (map (\<lambda>((eid, cnt), (k, m)). make_row net eid cnt m) (zip counts ms)))"
  by (induction counts) (auto split: sum.splits)

lemma make_row_mean:
  "edge_id (make_row net eid cnt m) = eid \<and> mean_speed_kmh (make_row net eid cnt m) = py_round m 2"
  by (simp add: make_row_def split: option.splits prod.splits)

section \<open>The congestion classifier\<close>

text \<open>
  Claim C5. The classifier has six bands, delimited by 0.25, 0.45, 0.60, 0.75 and 0.90:
  each colour is returned exactly on its half-open interval, the six colours are
  distinct, and a ratio equal to a threshold falls in the band above it (less severe).
\<close>

theorem sr_to_color_bands:
  "(sr_to_color r = [204, 0, 0] \<longleftrightarrow> r < 0.25)
   \<and> (sr_to_color r = [255, 68, 0] \<longleftrightarrow> 0.25 \<le> r \<and> r < 0.45)
   \<and> (sr_to_color r = [255, 136, 0] \<longleftrightarrow> 0.45 \<le> r \<and> r < 0.60)
   \<and> (sr_to_color r = [255, 187, 0] \<longleftrightarrow> 0.60 \<le> r \<and> r < 0.75)
   \<and> (sr_to_color r = [136, 204, 0] \<longleftrightarrow> 0.75 \<le> r \<and> r < 0.90)
   \<and> (sr_to_color r = [0, 170, 68] \<longleftrightarrow> 0.90 \<le> r)
   \<and> distinct [[204, 0, 0], [255, 68, 0], [255, 136, 0], [255, 187, 0], [136, 204, 0],
                [0, 170, 68 :: int]]
   \<and> sr_to_color 0.25 = [255, 68, 0]
   \<and> sr_to_color 0.45 = [255, 136, 0]
   \<and> sr_to_color 0.60 = [255, 187, 0]
   \<and> sr_to_color 0.75 = [136, 204, 0]
   \<and> sr_to_color 0.90 = [0, 170, 68]"
  by (simp add: sr_to_color_def)

section \<open>Merging the polylines of a group\<close>

lemma merge_two:
  "merge_shapes [a, b]
     = a @ (if a \<noteq> [] \<and> b \<noteq> [] \<and> close_pts (hd b) (last a) then tl b else b)"
  by (simp add: merge_shapes_def merge_step_def)

text \<open>
  Claim C6. Merging two consecutive polylines \<open>a\<close> and \<open>b\<close> whose junction points
  coincide within \<open>5e-5\<close> in each coordinate gives \<open>length a + length b - 1\<close> points;
  and a group whose merged polyline has fewer than 2 points yields no feature.
\<close>

theorem merge_drops_shared_point:
  "(a \<noteq> [] \<and> b \<noteq> [] \<and> close_pts (hd b) (last a)
      \<longrightarrow> length (merge_shapes [a, b]) = length a + length b - 1
          \<and> merge_shapes [a, b] = a @ tl b)
   \<and> (length (group_merged conv edges) < 2
      \<longrightarrow> group_features conv congestion roundabout_edges nl edges = Inr [])"
proof (intro conjI impI)
  assume h: "a \<noteq> [] \<and> b \<noteq> [] \<and> close_pts (hd b) (last a)"
  then show "merge_shapes [a, b] = a @ tl b" by (simp add: merge_two)
  from h show "length (merge_shapes [a, b]) = length a + length b - 1"
    by (cases b) (simp_all add: merge_two)
next
  assume "length (group_merged conv edges) < 2"
  then show "group_features conv congestion roundabout_edges nl edges = Inr []"
    by (simp add: group_features_def Let_def)
qed

lemma group_edges_two: "group_edges [edge_12_0, edge_12_1] = [edge_12_0, edge_12_1]"
  by (simp add: group_edges_def seg_num_def edge_12_0_def edge_12_1_def is_digit_def
        digits_val_def)

lemma group_merged_two:
  "group_merged (\<lambda>p. p) [edge_12_0, edge_12_1] = [(0, 0), (1, 0), (2, 0)]"
  unfolding group_merged_def group_edges_two
  by (simp add: merge_two close_pts_def edge_12_0_def edge_12_1_def)

theorem merge_drops_shared_point_witness:
  "([(0, 0), (1, 0)] \<noteq> [] \<and> [(1.00001, 0), (2, 0)] \<noteq> []
      \<and> close_pts (hd [(1.00001, 0), (2, 0)]) (last [(0, 0), (1, 0)])
      \<and> length (merge_shapes [[(0, 0), (1, 0)], [(1.00001, 0), (2, 0)]]) = 2 + 2 - 1
      \<and> merge_shapes [[(0, 0), (1, 0)], [(1.00001, 0), (2, 0)]] = [(0, 0), (1, 0), (2, 0)])
   \<and> (length (group_merged (\<lambda>p. p) [edge_one_point]) < 2
      \<and> group_features (\<lambda>p. p) [] [] 2 [edge_one_point] = Inr [])"
proof -
  have c: "close_pts (hd [(1.00001, 0), (2, 0)]) (last [(0, 0), (1, 0)])"
    by (simp add: close_pts_def)
  have l: "length (group_merged (\<lambda>p. p) [edge_one_point]) < 2"
    by (simp add: group_merged_def group_edges_def merge_shapes_def merge_step_def
          edge_one_point_def)
  from merge_drops_shared_point[of "[(0, 0), (1, 0)]" "[(1.00001, 0), (2, 0)]"
      "\<lambda>p. p" "[edge_one_point]" "[]" "[]" 2] c l
  show ?thesis by simp
qed

section \<open>The lane-offset function\<close>

lemma collect_total:
  "(\<And>x. x \<in> set xs \<Longrightarrow> \<exists>y. f x = Inr y) \<Longrightarrow>
   \<exists>ys. collect f xs = Inr ys \<and> length ys = length xs
        \<and> (\<forall>j<length xs. f (xs ! j) = Inr (ys ! j))"
proof (induction xs)
  case Nil
  then show ?case by simp
next
  case (Cons x xs)
  from Cons.prems obtain y where y: "f x = Inr y" by auto
  from Cons.IH Cons.prems obtain ys where ys: "collect f xs = Inr ys" "length ys = length xs"
    "\<forall>j<length xs. f (xs ! j) = Inr (ys ! j)" by auto
  have "\<forall>j<length (x # xs). f ((x # xs) ! j) = Inr ((y # ys) ! j)"
    using y ys(3) by (auto simp: nth_Cons split: nat.splits)
  with y ys(1,2) show ?case by simp
qed

lemma collect_Inr:
  "collect f xs = Inr ys \<Longrightarrow>
   length ys = length xs \<and> (\<forall>j<length xs. f (xs ! j) = Inr (ys ! j))"
proof (induction xs arbitrary: ys)
  case Nil
  then show ?case by simp
next
  case (Cons x xs)
  from Cons.prems obtain y ys' where y: "f x = Inr y" "collect f xs = Inr ys'" "ys = y # ys'"
    by (auto split: sum.splits)
  from Cons.IH[OF y(2)] y(1,3) show ?case
    by (auto simp: nth_Cons split: nat.splits)
qed

text \<open>With at least two points no index of \<open>local_dir\<close> is out of range.\<close>

lemma local_dir_total:
  assumes "2 \<le> length coords" "i < length coords"
  shows "\<exists>d. local_dir coords (int i) = Inr d"
proof -
  have fwd: "\<exists>d. diff_at coords 1 0 = Inr d"
    using assms(1) by (auto simp: diff_at_def py_index_def)
  have bwd: "\<exists>d. diff_at coords (- 1) (- 2) = Inr d"
    using assms(1) by (auto simp: diff_at_def py_index_def)
  have mid: "\<exists>d. diff_at coords (int i + 1) (int i - 1) = Inr d"
    if "i \<noteq> 0" "int i \<noteq> int (length coords) - 1"
    using that assms(2) by (auto simp: diff_at_def py_index_def)
  show ?thesis
    unfolding local_dir_def using fwd bwd mid by auto
qed

text \<open>The division of \<open>offset_point\<close> is guarded by \<open>L == 0\<close>.\<close>

lemma offset_point_total:
  "\<exists>p. offset_point pt d offset_m = Inr p \<and> (dir_len d = 0 \<longrightarrow> p = pt)"
  by (cases pt) (auto simp: offset_point_def py_div_def Let_def)

lemma offset_vertex_total:
  assumes "2 \<le> length coords" "i < length coords"
  shows "\<exists>p d. offset_vertex coords offset_m (i, pt) = Inr p
           \<and> local_dir coords (int i) = Inr d \<and> (dir_len d = 0 \<longrightarrow> p = pt)"
proof -
  from local_dir_total[OF assms] obtain d where d: "local_dir coords (int i) = Inr d" by blast
  from offset_point_total[of pt d offset_m] obtain p where
    "offset_point pt d offset_m = Inr p" "dir_len d = 0 \<longrightarrow> p = pt" by blast
  with d show ?thesis by (simp add: offset_vertex_def)
qed

text \<open>
  Claim C10. On a polyline of at least two points the lane-offset function returns a
  polyline (no \<open>IndexError\<close>, no \<open>ZeroDivisionError\<close>) with as many points as its input;
  at every vertex the local direction is defined, and where its length is zero the vertex
  is returned unchanged.
\<close>

theorem offset_line_total:
  assumes "2 \<le> length coords"
  shows "\<exists>res. offset_line coords offset_m = Inr res
           \<and> length res = length coords
           \<and> (\<forall>i<length coords. \<exists>d. local_dir coords (int i) = Inr d
                  \<and> (dir_len d = 0 \<longrightarrow> res ! i = coords ! i))"
proof -
  let ?f = "offset_vertex coords offset_m"
  let ?xs = "enumerate 0 coords"
  have elem: "\<exists>y. ?f x = Inr y" if "x \<in> set ?xs" for x
  proof -
    from that have "fst x < length coords" by (simp add: in_set_enumerate_eq)
    then obtain i pt where x: "x = (i, pt)" "i < length coords" by (cases x) auto
    from offset_vertex_total[OF assms x(2), of offset_m pt] x(1) show ?thesis by blast
  qed
  from collect_total[of ?xs ?f, OF elem] obtain res where
    res: "collect ?f ?xs = Inr res" "length res = length ?xs"
    "\<forall>j<length ?xs. ?f (?xs ! j) = Inr (res ! j)" by blast
  have "\<exists>d. local_dir coords (int i) = Inr d \<and> (dir_len d = 0 \<longrightarrow> res ! i = coords ! i)"
    if i: "i < length coords" for i
  proof -
    from res(3) i have r: "?f (i, coords ! i) = Inr (res ! i)"
      by (simp add: nth_enumerate_eq)
    from offset_vertex_total[OF assms i, of offset_m "coords ! i"] r show ?thesis by auto
  qed
  with res(1,2) show ?thesis by (auto simp: offset_line_def)
qed

theorem offset_line_total_witness:
  "2 \<le> length [(0, 0), (0, 0), (1, 0 :: real)]
   \<and> (\<exists>res. offset_line [(0, 0), (0, 0), (1, 0)] 1.6 = Inr res
           \<and> length res = length [(0, 0), (0, 0), (1, 0 :: real)]
           \<and> (\<forall>i<length [(0, 0), (0, 0), (1, 0 :: real)].
                 \<exists>d. local_dir [(0, 0), (0, 0), (1, 0)] (int i) = Inr d
                  \<and> (dir_len d = 0 \<longrightarrow> res ! i = [(0, 0), (0, 0), (1, 0)] ! i)))"
  using offset_line_total[of "[(0, 0), (0, 0), (1, 0)]" "1.6"] by simp

text \<open>With a single point the first iteration reads \<^verbatim>\<open>coords[1]\<close> and raises.\<close>

lemma offset_line_single: "offset_line [p] offset_m = Inl IndexError"
  by (simp add: offset_line_def offset_vertex_def local_dir_def diff_at_def py_index_def)

section \<open>The features of a group\<close>

lemma lane_offset_mirror:
  assumes "li < nl"
  shows "lane_offset nl (nl - Suc li) = - lane_offset nl li"
proof -
  from assms have "real (nl - Suc li) = real nl - 1 - real li"
    by (simp add: of_nat_diff)
  then show ?thesis by (simp add: lane_offset_def field_simps)
qed

lemma rev_upt_map: "rev [0..<n] = map (\<lambda>i. n - Suc i) [0..<n]"
  by (rule nth_equalityI) (auto simp: rev_nth)

lemma lane_offsets_symmetric:
  "mset (map (lane_offset nl) [0..<nl]) = image_mset uminus (mset (map (lane_offset nl) [0..<nl]))"
proof -
  have "mset (map (lane_offset nl) [0..<nl]) = mset (map (lane_offset nl) (rev [0..<nl]))"
    by (simp add: rev_map[symmetric])
  also have "map (lane_offset nl) (rev [0..<nl])
               = map (\<lambda>i. - lane_offset nl i) [0..<nl]"
    unfolding rev_upt_map by (simp add: lane_offset_mirror)
  also have "mset (map (\<lambda>i. - lane_offset nl i) [0..<nl])
               = image_mset uminus (mset (map (lane_offset nl) [0..<nl]))"
    by (simp add: image_mset.compositionality comp_def)
  finally show ?thesis .
qed

lemma lane_offsets_symmetric_explicit:
  "mset (map (\<lambda>li. (real li - (real nl - 1) / 2) * 3.2) [0..<nl])
     = image_mset uminus (mset (map (\<lambda>li. (real li - (real nl - 1) / 2) * 3.2) [0..<nl]))"
proof -
  have "lane_offset nl = (\<lambda>li. (real li - (real nl - 1) / 2) * 3.2)"
    by (rule ext) (simp only: lane_offset_def)
  with lane_offsets_symmetric[of nl] show ?thesis by (simp only:)
qed

text \<open>The direction and the shifted vertex, written out.\<close>

lemma local_dir_explicit:
  assumes "2 \<le> length coords" "i < length coords"
  shows "local_dir coords (int i)
           = Inr (if i = 0 then (fst (coords ! 1) - fst (coords ! 0),
                                 snd (coords ! 1) - snd (coords ! 0))
                  else if i = length coords - 1
                  then (fst (coords ! (length coords - 1)) - fst (coords ! (length coords - 2)),
                        snd (coords ! (length coords - 1)) - snd (coords ! (length coords - 2)))
                  else (fst (coords ! (i + 1)) - fst (coords ! (i - 1)),
                        snd (coords ! (i + 1)) - snd (coords ! (i - 1))))"
proof -
  have n1: "nat (int (length coords) - 1) = length coords - 1"
    and n2: "nat (int (length coords) - 2) = length coords - 2"
    using assms(1) by simp_all
  show ?thesis
  proof (cases "i = 0")
    case True
    then show ?thesis using assms(1) by (auto simp: local_dir_def diff_at_def py_index_def)
  next
    case False
    show ?thesis
    proof (cases "i = length coords - 1")
      case True
      then have "int i = int (length coords) - 1" using assms(1) by simp
      with False True show ?thesis
        using assms(1) by (simp add: local_dir_def diff_at_def py_index_def n1 n2)
    next
      case last: False
      then have ne: "int i \<noteq> int (length coords) - 1" using assms(2) by linarith
      have m: "nat (int i + 1) = i + 1" "nat (int i - 1) = i - 1" using False by simp_all
      from False last ne assms(2) show ?thesis
        by (simp add: local_dir_def diff_at_def py_index_def m)
    qed
  qed
qed

lemma offset_point_explicit:
  "offset_point pt d offset_m
     = Inr (if dir_len d = 0 then pt
            else (fst pt + (- snd d / dir_len d) * offset_m / 75000,
                  snd pt + (fst d / dir_len d) * offset_m / 111000))"
  by (cases pt) (simp add: offset_point_def py_div_def Let_def)

lemma offset_line_nth:
  assumes "2 \<le> length coords" "offset_line coords offset_m = Inr res" "i < length coords"
  shows "\<exists>d. local_dir coords (int i) = Inr d
           \<and> res ! i = (if dir_len d = 0 then coords ! i
                        else (fst (coords ! i) + (- snd d / dir_len d) * offset_m / 75000,
                              snd (coords ! i) + (fst d / dir_len d) * offset_m / 111000))"
proof -
  from local_dir_total[OF assms(1,3)] obtain d where d: "local_dir coords (int i) = Inr d"
    by blast
  from collect_Inr[OF assms(2)[unfolded offset_line_def]] assms(3)
  have "offset_vertex coords offset_m (enumerate 0 coords ! i) = Inr (res ! i)" by simp
  with assms(3) have "offset_vertex coords offset_m (i, coords ! i) = Inr (res ! i)"
    by (simp add: nth_enumerate_eq)
  with d show ?thesis by (simp add: offset_vertex_def offset_point_explicit)
qed

text \<open>
  Claim C7. A group that is rendered (its merged polyline has at least two points, at
  least one of its edges has a row, and the total weight is not zero, so that line 163
  does not raise) yields, for \<open>nl \<ge> 2\<close> lanes, exactly \<open>nl\<close> features. The feature
  of lane \<open>li\<close> has as many vertices as the merged polyline, and its vertex \<open>i\<close> is the
  merged vertex moved by \<open>(li - (nl - 1) / 2) * 3.2\<close> along the normal of the local
  direction \<open>d\<close> (forward difference at the first vertex, backward at the last, central
  elsewhere), the x part divided by 75000 and the y part by 111000; a vertex whose
  direction has length zero is not moved. The offsets of the \<open>nl\<close> lanes are symmetric
  about zero as a multiset. For one lane the group yields exactly one feature, whose
  geometry is the merged polyline itself.
\<close>

theorem group_features_per_lane:
  assumes "2 \<le> length (group_merged conv edges)"
    and "group_rows congestion edges \<noteq> []"
    and "group_weight congestion edges \<noteq> 0"
    and "merged = group_merged conv edges"
  shows "\<exists>fs. group_features conv congestion roundabout_edges nl edges = Inr fs
           \<and> (nl = 1 \<longrightarrow> length fs = 1 \<and> coordinates (hd fs) = merged)
           \<and> (2 \<le> nl \<longrightarrow> length fs = nl
                 \<and> (\<forall>li<nl. length (coordinates (fs ! li)) = length merged
                       \<and> (\<forall>i<length merged.
                             let off = (real li - (real nl - 1) / 2) * 3.2;
                                 d = (if i = 0
                                      then (fst (merged ! 1) - fst (merged ! 0),
                                            snd (merged ! 1) - snd (merged ! 0))
                                      else if i = length merged - 1
                                      then (fst (merged ! (length merged - 1))
                                              - fst (merged ! (length merged - 2)),
                                            snd (merged ! (length merged - 1))
                                              - snd (merged ! (length merged - 2)))
                                      else (fst (merged ! (i + 1)) - fst (merged ! (i - 1)),
                                            snd (merged ! (i + 1)) - snd (merged ! (i - 1))));
                                 L = sqrt (fst d * fst d + snd d * snd d)
                             in coordinates (fs ! li) ! i
                                  = (if L = 0 then merged ! i
                                     else (fst (merged ! i) + (- snd d / L) * off / 75000,
                                           snd (merged ! i) + (fst d / L) * off / 111000)))))
           \<and> mset (map (\<lambda>li. (real li - (real nl - 1) / 2) * 3.2) [0..<nl])
               = image_mset uminus (mset (map (\<lambda>li. (real li - (real nl - 1) / 2) * 3.2) [0..<nl]))"
proof -
  let ?rws = "group_rows congestion edges"
  let ?W = "group_weight congestion edges"
  have len: "2 \<le> length merged" using assms(1,4) by simp
  obtain avg_sr where sr: "py_div (sum_list (map (\<lambda>(s, f, w). s * w) ?rws)) ?W = Inr avg_sr"
    using assms(3) by (simp add: py_div_def)
  obtain avg_flow where fl: "py_div (sum_list (map (\<lambda>(s, f, w). f * w) ?rws)) ?W = Inr avg_flow"
    using assms(3) by (simp add: py_div_def)
  let ?props = "\<lparr>coordinates = merged,
       speed_ratio = py_round avg_sr 3, f_peak_flow = py_int avg_flow,
       color = sr_to_color avg_sr, n_lanes = nl,
       is_roundabout = list_ex (\<lambda>e. e_id e \<in> set roundabout_edges) (group_edges edges)\<rparr>"
  let ?lane = "\<lambda>li. case offset_line merged (lane_offset nl li) of
       Inl e \<Rightarrow> Inl e | Inr cs \<Rightarrow> Inr (?props\<lparr>coordinates := cs\<rparr>)"
  have gf: "group_features conv congestion roundabout_edges nl edges
              = (if nl = 1 then Inr [?props] else collect ?lane [0..<nl])"
    using assms(1,2) sr fl unfolding assms(4)
    by (simp add: group_features_def Let_def)
  have lane_ok: "\<exists>y. ?lane li = Inr y" for li
    using offset_line_total[OF len, of "lane_offset nl li"] by auto
  from collect_total[of "[0..<nl]" ?lane] lane_ok obtain fs where
    fs: "collect ?lane [0..<nl] = Inr fs" "length fs = nl"
    "\<forall>j<nl. ?lane j = Inr (fs ! j)" by auto
  have geo: "offset_line merged (lane_offset nl li) = Inr (coordinates (fs ! li))"
    if "li < nl" for li
  proof -
    from offset_line_total[OF len, of "lane_offset nl li"] obtain cs where
      cs: "offset_line merged (lane_offset nl li) = Inr cs" by blast
    from fs(3) that have "?lane li = Inr (fs ! li)" by blast
    with cs have "fs ! li = ?props\<lparr>coordinates := cs\<rparr>" by simp
    with cs show ?thesis by simp
  qed
  have geo_len: "length (coordinates (fs ! li)) = length merged" if "li < nl" for li
    using offset_line_total[OF len, of "lane_offset nl li"] geo[OF that] by auto
  have vertex: "let off = (real li - (real nl - 1) / 2) * 3.2;
                    d = (if i = 0
                         then (fst (merged ! 1) - fst (merged ! 0),
                               snd (merged ! 1) - snd (merged ! 0))
                         else if i = length merged - 1
                         then (fst (merged ! (length merged - 1))
                                 - fst (merged ! (length merged - 2)),
                               snd (merged ! (length merged - 1))
                                 - snd (merged ! (length merged - 2)))
                         else (fst (merged ! (i + 1)) - fst (merged ! (i - 1)),
                               snd (merged ! (i + 1)) - snd (merged ! (i - 1))));
                    L = sqrt (fst d * fst d + snd d * snd d)
                in coordinates (fs ! li) ! i
                     = (if L = 0 then merged ! i
                        else (fst (merged ! i) + (- snd d / L) * off / 75000,
                              snd (merged ! i) + (fst d / L) * off / 111000))"
    if "li < nl" "i < length merged" for li i
  proof -
    from offset_line_nth[OF len geo[OF that(1)] that(2)] obtain d where
      d: "local_dir merged (int i) = Inr d"
      "coordinates (fs ! li) ! i
         = (if dir_len d = 0 then merged ! i
            else (fst (merged ! i) + (- snd d / dir_len d) * lane_offset nl li / 75000,
                  snd (merged ! i) + (fst d / dir_len d) * lane_offset nl li / 111000))"
      by blast
    from d(1) local_dir_explicit[OF len that(2)] d(2) show ?thesis
      by (auto simp: Let_def dir_len_def lane_offset_def)
  qed
  show ?thesis
  proof (cases "nl = 1")
    case True
    then show ?thesis
      using gf lane_offsets_symmetric_explicit[of nl] by simp
  next
    case False
    have "group_features conv congestion roundabout_edges nl edges = Inr fs"
      using gf fs(1) False by simp
    moreover have "2 \<le> nl \<longrightarrow> length fs = nl
                 \<and> (\<forall>li<nl. length (coordinates (fs ! li)) = length merged
                       \<and> (\<forall>i<length merged.
                             let off = (real li - (real nl - 1) / 2) * 3.2;
                                 d = (if i = 0
                                      then (fst (merged ! 1) - fst (merged ! 0),
                                            snd (merged ! 1) - snd (merged ! 0))
                                      else if i = length merged - 1
                                      then (fst (merged ! (length merged - 1))
                                              - fst (merged ! (length merged - 2)),
                                            snd (merged ! (length merged - 1))
                                              - snd (merged ! (length merged - 2)))
                                      else (fst (merged ! (i + 1)) - fst (merged ! (i - 1)),
                                            snd (merged ! (i + 1)) - snd (merged ! (i - 1))));
                                 L = sqrt (fst d * fst d + snd d * snd d)
                             in coordinates (fs ! li) ! i
                                  = (if L = 0 then merged ! i
                                     else (fst (merged ! i) + (- snd d / L) * off / 75000,
                                           snd (merged ! i) + (fst d / L) * off / 111000))))"
      using fs(2) geo_len vertex by blast
    moreover have "mset (map (\<lambda>li. (real li - (real nl - 1) / 2) * 3.2) [0..<nl])
               = image_mset uminus (mset (map (\<lambda>li. (real li - (real nl - 1) / 2) * 3.2) [0..<nl]))"
      by (rule lane_offsets_symmetric_explicit)
    ultimately show ?thesis using False by blast
  qed
qed

lemma group_rows_two:
  "group_rows congestion_two [edge_12_0, edge_12_1] = [(0.5, 2, 100), (0.8, 1, 50)]"
  unfolding group_rows_def group_edges_two
  by (simp add: map_filter_simps congestion_two_def edge_12_0_def edge_12_1_def)

lemma group_features_two:
  "group_features (\<lambda>p. p) congestion_two [] 2 [edge_12_0, edge_12_1]
     = Inr [\<lparr>coordinates = [(0, - (1.6 / 111000)), (1, - (1.6 / 111000)), (2, - (1.6 / 111000))],
             speed_ratio = 0.6, f_peak_flow = 1, color = [255, 187, 0], n_lanes = 2,
             is_roundabout = False\<rparr>,
            \<lparr>coordinates = [(0, 1.6 / 111000), (1, 1.6 / 111000), (2, 1.6 / 111000)],
             speed_ratio = 0.6, f_peak_flow = 1, color = [255, 187, 0], n_lanes = 2,
             is_roundabout = False\<rparr>]"
proof -
  have up: "[0..<2] = [0, Suc 0]" by (simp add: upt_rec)
  have line: "offset_line [(0, 0), (1, 0), (2, 0)] off
                = Inr [(0, off / 111000), (1, off / 111000), (2, off / 111000)]" for off
    by (simp add: offset_line_def offset_vertex_def local_dir_def diff_at_def py_index_def
          offset_point_def dir_len_def py_div_def)
  show ?thesis
    unfolding group_features_def group_merged_two group_rows_two group_weight_def
      group_edges_two up
    by (simp add: line py_div_def lane_offset_def py_round_def round_half_even_def py_int_def
          sr_to_color_def edge_12_0_def edge_12_1_def)
qed

theorem group_features_per_lane_witness:
  "2 \<le> length (group_merged (\<lambda>p. p) [edge_12_0, edge_12_1])
   \<and> group_rows congestion_two [edge_12_0, edge_12_1] \<noteq> []
   \<and> group_weight congestion_two [edge_12_0, edge_12_1] \<noteq> 0
   \<and> [(0, 0), (1, 0), (2, 0)] = group_merged (\<lambda>p. p) [edge_12_0, edge_12_1]
   \<and> (\<exists>fs. group_features (\<lambda>p. p) congestion_two [] 2 [edge_12_0, edge_12_1] = Inr fs
           \<and> length fs = 2
           \<and> length (coordinates (fs ! 0)) = 3
           \<and> coordinates (fs ! 0) ! 0 = (0, - (1.6 / 111000))
           \<and> coordinates (fs ! 0) ! 1 = (1, - (1.6 / 111000))
           \<and> coordinates (fs ! 1) ! 1 = (1, 1.6 / 111000)
           \<and> coordinates (fs ! 1) ! 2 = (2, 1.6 / 111000))
   \<and> group_features (\<lambda>p. p) congestion_two [] 2 [edge_12_0, edge_12_1]
       = Inr [\<lparr>coordinates = [(0, - (1.6 / 111000)), (1, - (1.6 / 111000)), (2, - (1.6 / 111000))],
               speed_ratio = 0.6, f_peak_flow = 1, color = [255, 187, 0], n_lanes = 2,
               is_roundabout = False\<rparr>,
              \<lparr>coordinates = [(0, 1.6 / 111000), (1, 1.6 / 111000), (2, 1.6 / 111000)],
               speed_ratio = 0.6, f_peak_flow = 1, color = [255, 187, 0], n_lanes = 2,
               is_roundabout = False\<rparr>]"
proof -
  have m: "2 \<le> length (group_merged (\<lambda>p. p) [edge_12_0, edge_12_1])"
    by (simp add: group_merged_two)
  have r: "group_rows congestion_two [edge_12_0, edge_12_1] \<noteq> []"
    by (simp add: group_rows_two)
  have w: "group_weight congestion_two [edge_12_0, edge_12_1] \<noteq> 0"
    by (simp add: group_weight_def group_rows_two)
  have mg: "[(0, 0), (1, 0), (2, 0)] = group_merged (\<lambda>p. p) [edge_12_0, edge_12_1]"
    by (simp add: group_merged_two)
  let ?m = "[(0, 0), (1, 0), (2, 0)] :: point list"
  from group_features_per_lane[OF m r w mg, of "[]" 2] obtain fs where
    fs: "group_features (\<lambda>p. p) congestion_two [] 2 [edge_12_0, edge_12_1] = Inr fs"
    "(2::nat) \<le> 2 \<longrightarrow> length fs = 2
       \<and> (\<forall>li<2. length (coordinates (fs ! li)) = length ?m
       \<and> (\<forall>i<length ?m.
             let off = (real li - (real 2 - 1) / 2) * 3.2;
                 d = (if i = 0
                      then (fst (?m ! 1) - fst (?m ! 0), snd (?m ! 1) - snd (?m ! 0))
                      else if i = length ?m - 1
                      then (fst (?m ! (length ?m - 1)) - fst (?m ! (length ?m - 2)),
                            snd (?m ! (length ?m - 1)) - snd (?m ! (length ?m - 2)))
                      else (fst (?m ! (i + 1)) - fst (?m ! (i - 1)),
                            snd (?m ! (i + 1)) - snd (?m ! (i - 1))));
                 L = sqrt (fst d * fst d + snd d * snd d)
             in coordinates (fs ! li) ! i
                  = (if L = 0 then ?m ! i
                     else (fst (?m ! i) + (- snd d / L) * off / 75000,
                           snd (?m ! i) + (fst d / L) * off / 111000))))"
    by blast
  from fs(2) have len2: "length fs = 2" by simp
  from fs(2) have all: "\<forall>li<2. length (coordinates (fs ! li)) = length ?m
       \<and> (\<forall>i<length ?m.
             let off = (real li - (real 2 - 1) / 2) * 3.2;
                 d = (if i = 0
                      then (fst (?m ! 1) - fst (?m ! 0), snd (?m ! 1) - snd (?m ! 0))
                      else if i = length ?m - 1
                      then (fst (?m ! (length ?m - 1)) - fst (?m ! (length ?m - 2)),
                            snd (?m ! (length ?m - 1)) - snd (?m ! (length ?m - 2)))
                      else (fst (?m ! (i + 1)) - fst (?m ! (i - 1)),
                            snd (?m ! (i + 1)) - snd (?m ! (i - 1))));
                 L = sqrt (fst d * fst d + snd d * snd d)
             in coordinates (fs ! li) ! i
                  = (if L = 0 then ?m ! i
                     else (fst (?m ! i) + (- snd d / L) * off / 75000,
                           snd (?m ! i) + (fst d / L) * off / 111000)))" by simp
  from all have l0: "length (coordinates (fs ! 0)) = 3" by simp
  from all[rule_format, of 0, THEN conjunct2, rule_format, of 0]
  have a: "coordinates (fs ! 0) ! 0 = (0, - (1.6 / 111000))" by (simp add: Let_def)
  from all[rule_format, of 0, THEN conjunct2, rule_format, of 1]
  have b: "coordinates (fs ! 0) ! 1 = (1, - (1.6 / 111000))" by (simp add: Let_def)
  from all[rule_format, of 1, THEN conjunct2, rule_format, of 1]
  have c: "coordinates (fs ! 1) ! 1 = (1, 1.6 / 111000)" by (simp add: Let_def)
  from all[rule_format, of 1, THEN conjunct2, rule_format, of 2]
  have d: "coordinates (fs ! 1) ! 2 = (2, 1.6 / 111000)" by (simp add: Let_def)
  from fs(1) len2 l0 a b c d have ex: "\<exists>fs. group_features (\<lambda>p. p) congestion_two [] 2 [edge_12_0, edge_12_1] = Inr fs
           \<and> length fs = 2
           \<and> length (coordinates (fs ! 0)) = 3
           \<and> coordinates (fs ! 0) ! 0 = (0, - (1.6 / 111000))
           \<and> coordinates (fs ! 0) ! 1 = (1, - (1.6 / 111000))
           \<and> coordinates (fs ! 1) ! 1 = (1, 1.6 / 111000)
           \<and> coordinates (fs ! 1) ! 2 = (2, 1.6 / 111000)" by blast
  show ?thesis
    by (rule conjI[OF m conjI[OF r conjI[OF w conjI[OF mg conjI[OF ex group_features_two]]]]])
qed

section \<open>Validation against the reference speeds\<close>

lemma ground_truth_google: "info \<in> snd ` set ground_truth \<Longrightarrow> google info \<noteq> 0"
  by (auto simp: ground_truth_def)

text \<open>
  The speeds that a corridor averages are those of the rows whose segment is known to
  the network, has a first shape vertex, and whose vertex, converted, lies in the box.
\<close>

lemma corridor_speeds_edge_coords:
  assumes "bbox info = (lon0, lon1, lat0, lat1)"
  shows "corridor_speeds info (edge_coords net conv rows)
           = map mean_speed_kmh
               (filter (\<lambda>r. case net (edge_id r) of
                               None \<Rightarrow> False
                             | Some e \<Rightarrow>
                                 (case e_shape e of
                                    [] \<Rightarrow> False
                                  | p # ps \<Rightarrow> lon0 \<le> fst (conv p) \<and> fst (conv p) \<le> lon1
                                             \<and> lat0 \<le> snd (conv p) \<and> snd (conv p) \<le> lat1))
                  rows)"
proof (induction rows)
  case Nil
  then show ?case by (simp add: corridor_speeds_def edge_coords_def map_filter_simps assms)
next
  case (Cons r rows)
  then show ?case
    by (auto simp: corridor_speeds_def edge_coords_def map_filter_simps assms
             split: option.splits list.splits)
qed

text \<open>
  Claim C8. For every configured corridor (and any other whose reference speed is not
  zero), with box \<open>(lon0, lon1, lat0, lat1)\<close>: the matching segments are the aggregated
  rows whose first shape vertex, converted to lon/lat, satisfies
  \<open>lon0 \<le> lon \<le> lon1\<close> and \<open>lat0 \<le> lat \<le> lat1\<close>. When there is none the report is
  \<open>NO_DATA\<close>; otherwise the simulated speed is the mean of their \<open>mean_speed_kmh\<close>, the
  ratio is that mean divided by the reference speed, and the verdict is \<open>GOOD\<close> iff the
  ratio is below 1.5, \<open>HIGH\<close> iff it is in \<open>[1.5, 2.5)\<close> and \<open>TOO_FAST\<close> iff it is at
  least 2.5.
\<close>

theorem validate_verdict:
  assumes "info \<in> snd ` set ground_truth \<or> google info \<noteq> 0"
    and "bbox info = (lon0, lon1, lat0, lat1)"
    and "matching = filter (\<lambda>r. case net (edge_id r) of
                                   None \<Rightarrow> False
                                 | Some e \<Rightarrow>
                                     (case e_shape e of
                                        [] \<Rightarrow> False
                                      | p # ps \<Rightarrow> lon0 \<le> fst (conv p) \<and> fst (conv p) \<le> lon1
                                                 \<and> lat0 \<le> snd (conv p) \<and> snd (conv p) \<le> lat1))
                      rows"
    and "mean = sum_list (map mean_speed_kmh matching) / real (length matching)"
  shows "(matching = []
            \<longrightarrow> validate info (edge_coords net conv rows)
                  = Inr \<lparr>sim = None, ratio = None, verdict = NO_DATA\<rparr>)
       \<and> (matching \<noteq> []
            \<longrightarrow> validate info (edge_coords net conv rows)
                  = Inr \<lparr>sim = Some mean, ratio = Some (mean / google info),
                         verdict = (if mean / google info < 1.5 then GOOD
                                    else if mean / google info < 2.5 then HIGH
                                    else TOO_FAST)\<rparr>
                \<and> ((if mean / google info < 1.5 then GOOD
                      else if mean / google info < 2.5 then HIGH else TOO_FAST) = GOOD
                     \<longleftrightarrow> mean / google info < 1.5)
                \<and> ((if mean / google info < 1.5 then GOOD
                      else if mean / google info < 2.5 then HIGH else TOO_FAST) = HIGH
                     \<longleftrightarrow> 1.5 \<le> mean / google info \<and> mean / google info < 2.5)
                \<and> ((if mean / google info < 1.5 then GOOD
                      else if mean / google info < 2.5 then HIGH else TOO_FAST) = TOO_FAST
                     \<longleftrightarrow> 2.5 \<le> mean / google info))"
proof -
  from assms(1) have g: "google info \<noteq> 0" using ground_truth_google by blast
  have sp: "corridor_speeds info (edge_coords net conv rows) = map mean_speed_kmh matching"
    unfolding assms(3) by (rule corridor_speeds_edge_coords[OF assms(2)])
  show ?thesis
  proof (cases "matching = []")
    case True
    then show ?thesis by (simp add: validate_def sp)
  next
    case False
    then have "real (length matching) \<noteq> 0" by simp
    with False g show ?thesis
      by (simp add: validate_def sp py_div_def Let_def assms(4))
  qed
qed

theorem validate_verdict_witness:
  "(scenario_corridor \<in> snd ` set ground_truth \<or> google scenario_corridor \<noteq> 0)
   \<and> bbox scenario_corridor = (- 0.5, 0.5, - 0.5, 0.5)
   \<and> [hd scenario_rows]
       = filter (\<lambda>r. case scenario_net (edge_id r) of
                       None \<Rightarrow> False
                     | Some e \<Rightarrow>
                         (case e_shape e of
                            [] \<Rightarrow> False
                          | p # ps \<Rightarrow> - 0.5 \<le> fst p \<and> fst p \<le> 0.5
                                     \<and> - 0.5 \<le> snd p \<and> snd p \<le> 0.5))
           scenario_rows
   \<and> (20 :: real) = sum_list (map mean_speed_kmh [hd scenario_rows])
                      / real (length [hd scenario_rows])
   \<and> validate scenario_corridor (edge_coords scenario_net (\<lambda>p. p) scenario_rows)
       = Inr \<lparr>sim = Some 20, ratio = Some 2, verdict = HIGH\<rparr>"
proof -
  have g: "scenario_corridor \<in> snd ` set ground_truth \<or> google scenario_corridor \<noteq> 0"
    by (simp add: scenario_corridor_def)
  have b: "bbox scenario_corridor = (- 0.5, 0.5, - 0.5, 0.5)"
    by (simp add: scenario_corridor_def)
  have m: "[hd scenario_rows]
       = filter (\<lambda>r. case scenario_net (edge_id r) of
                       None \<Rightarrow> False
                     | Some e \<Rightarrow>
                         (case e_shape e of
                            [] \<Rightarrow> False
                          | p # ps \<Rightarrow> - 0.5 \<le> fst ((\<lambda>p. p) p) \<and> fst ((\<lambda>p. p) p) \<le> 0.5
                                     \<and> - 0.5 \<le> snd ((\<lambda>p. p) p) \<and> snd ((\<lambda>p. p) p) \<le> 0.5))
           scenario_rows"
    by (simp add: scenario_rows_def scenario_net_def edge_12_0_def edge_12_1_def)
  have s: "(20 :: real) = sum_list (map mean_speed_kmh [hd scenario_rows])
                      / real (length [hd scenario_rows])"
    by (simp add: scenario_rows_def)
  from validate_verdict[OF g b m s]
  have v: "validate scenario_corridor (edge_coords scenario_net (\<lambda>p. p) scenario_rows)
       = Inr \<lparr>sim = Some 20, ratio = Some 2, verdict = HIGH\<rparr>"
    by (simp add: scenario_corridor_def)
  from m have m': "[hd scenario_rows]
       = filter (\<lambda>r. case scenario_net (edge_id r) of
                       None \<Rightarrow> False
                     | Some e \<Rightarrow>
                         (case e_shape e of
                            [] \<Rightarrow> False
                          | p # ps \<Rightarrow> - 0.5 \<le> fst p \<and> fst p \<le> 0.5
                                     \<and> - 0.5 \<le> snd p \<and> snd p \<le> 0.5))
           scenario_rows" by simp
  show ?thesis by (rule conjI[OF g conjI[OF b conjI[OF m' conjI[OF s v]]]])
qed

section \<open>Lines that are skipped and lines that abort the scans\<close>

text \<open>
  A boundary line without a time attribute, and a sample line without one of the
  attributes a scan reads, leave the state of the scan as it is.
\<close>

lemma deckgl_step_no_time:
  "contains ''<timestep'' l \<Longrightarrow> RE_TIME l = None \<Longrightarrow> deckgl_step s l = Inr (Continue, s)"
  by (simp add: deckgl_step_def)

lemma traj_step_no_time:
  "contains ''<timestep'' l \<Longrightarrow> RE_TIME l = None \<Longrightarrow> traj_step s l = Inr (Continue, s)"
  by (simp add: traj_step_def)

lemma agg_step_no_time:
  "contains ''<timestep'' l \<Longrightarrow> RE_TIME l = None \<Longrightarrow> agg_step s l = Inr s"
  by (simp add: agg_step_def)

lemma deckgl_step_missing_attr:
  "\<not> contains ''<timestep'' l \<Longrightarrow>
   RE_VID l = None \<or> RE_X l = None \<or> RE_Y l = None \<or> RE_SPEED l = None \<Longrightarrow>
   deckgl_step s l = Inr (Continue, s)"
  by (auto simp: deckgl_step_def split: option.splits)

lemma traj_step_missing_attr:
  "\<not> contains ''<timestep'' l \<Longrightarrow>
   RE_VID l = None \<or> RE_X l = None \<or> RE_Y l = None \<or> RE_SPEED l = None \<Longrightarrow>
   traj_step s l = Inr (Continue, s)"
  by (auto simp: traj_step_def split: option.splits)

lemma agg_step_missing_attr:
  "\<not> contains ''<timestep'' l \<Longrightarrow> RE_LANE l = None \<or> RE_SPEED l = None \<Longrightarrow>
   agg_step s l = Inr s"
  by (auto simp: agg_step_def split: option.splits)

lemma bad_time_line_facts:
  "contains ''<timestep'' bad_time_line" "RE_TIME bad_time_line = Some ''1.2.3''"
  by (simp_all add: bad_time_line_def str_eval)

lemma bad_speed_line_facts:
  "\<not> contains ''<timestep'' bad_speed_line" "contains ''<vehicle'' bad_speed_line"
  "RE_VID bad_speed_line = Some ''veh0''" "RE_X bad_speed_line = Some ''100.5''"
  "RE_Y bad_speed_line = Some ''200.25''" "RE_LANE bad_speed_line = Some ''12#0_1''"
  "RE_SPEED bad_speed_line = Some ''1.2.3''"
  by (simp_all add: bad_speed_line_def str_eval)

lemma morning_line_facts:
  "contains ''<timestep'' (timestep_line ''25200.00'')"
  "RE_TIME (timestep_line ''25200.00'') = Some ''25200.00''"
  by (simp_all add: str_eval)

lemma py_float_examples:
  "py_float ''1.2.3'' = Inl ValueError" "py_float ''25200.00'' = Inr 25200"
  "py_float ''100.5'' = Inr 100.5" "py_float ''200.25'' = Inr 200.25"
  by (simp_all add: py_float_def is_digit_def digits_val_def)

text \<open>
  Claim C9 does not hold of the scripts. An attribute made of digits and dots that is
  not a float literal, such as \<^verbatim>\<open>time="1.2.3"\<close>, is extracted by the pattern
  \<^verbatim>\<open>[\d.]+\<close>; \<^verbatim>\<open>float\<close> then raises \<open>ValueError\<close>, which nothing catches: each of
  the three scans aborts on such a boundary line, and on a sample line with such a speed
  once the scan is inside its window.
\<close>

theorem malformed_float_aborts:
  "make_deckgl [bad_time_line] = Inl ValueError
   \<and> postprocess_trips [bad_time_line] = Inl ValueError
   \<and> agg_scan astate0 [bad_time_line] = Inl ValueError
   \<and> make_deckgl [timestep_line ''25200.00'', bad_speed_line] = Inl ValueError
   \<and> postprocess_trips [timestep_line ''25200.00'', bad_speed_line] = Inl ValueError
   \<and> agg_scan astate0 [timestep_line ''25200.00'', bad_speed_line] = Inl ValueError"
  by (simp add: bad_time_line_facts bad_speed_line_facts morning_line_facts py_float_examples
        deckgl_step_def traj_step_def agg_step_def dstate0_def tstate0_def astate0_def
        mk_waypoint_def ensure_vehicle_def py_int_def
        MORNING_START_def MORNING_END_def BUFFER_def EVENING_START_def EVENING_END_def
        SAMPLE_EVERY_def make_deckgl_def postprocess_trips_def)

section \<open>Size of the finalized trajectory output\<close>

text \<open>The output of \<^verbatim>\<open>make_deckgl.py\<close> respects both bounds.\<close>

lemma length_map_filter_le: "length (List.map_filter f xs) \<le> length xs"
  by (simp add: map_filter_def)

lemma deckgl_cap_length: "length (deckgl_cap valid) \<le> MAX_VEHICLES"
proof (cases "MAX_VEHICLES < length valid")
  case True
  let ?vids = "take MAX_VEHICLES (sort_key (\<lambda>v. - int (n_waypoints valid v)) (map fst valid))"
  have "deckgl_cap valid = List.map_filter
          (\<lambda>vid. case map_of valid vid of Some wps \<Rightarrow> Some (vid, wps) | None \<Rightarrow> None) ?vids"
    using True by (simp add: deckgl_cap_def Let_def)
  then have "length (deckgl_cap valid) \<le> length ?vids"
    by (simp only: length_map_filter_le)
  also have "\<dots> \<le> MAX_VEHICLES" by simp
  finally show ?thesis .
next
  case False
  then show ?thesis by (simp add: deckgl_cap_def)
qed

lemma make_deckgl_bounds:
  assumes "make_deckgl trace = Inr out"
  shows "length out \<le> MAX_VEHICLES \<and> (\<forall>(vid, wps) \<in> set out. MIN_WAYPOINTS \<le> length wps)"
proof -
  from assms obtain s :: dstate where out: "out = deckgl_cap (deckgl_valid (vehicles s))"
    by (auto simp: make_deckgl_def deckgl_finalize_def split: sum.splits)
  have "set out \<subseteq> set (deckgl_valid (vehicles s))"
    unfolding out by (rule deckgl_cap_subset)
  then have "\<forall>(vid, wps) \<in> set out. MIN_WAYPOINTS \<le> length wps"
    by (auto simp: deckgl_valid_def)
  then show ?thesis unfolding out using deckgl_cap_length by blast
qed

lemma postprocess_trips_min_waypoints:
  assumes "postprocess_trips trace = Inr out"
  shows "\<forall>(vid, wps) \<in> set out. 5 \<le> length wps"
  using assms by (auto simp: postprocess_trips_def postprocess_deckgl_def split: sum.splits)

text \<open>
  The trajectory scan of \<^verbatim>\<open>postprocess.py\<close> on the crowded trace. First the patterns
  on a sample line whose id is a run of the letter \<open>a\<close>.
\<close>

lemma contains_skip_run:
  "c \<noteq> p0 \<Longrightarrow> contains (p0 # ps) (replicate n c @ rest) = contains (p0 # ps) rest"
  by (induction n) auto

lemma re_search_other_char:
  "c \<noteq> k0 \<Longrightarrow>
   re_search wb (k0 # ks) cls pw (c # cs) = re_search wb (k0 # ks) cls (is_word c) cs"
  by (simp add: match_here_def)

lemma re_search_skip_run:
  "c \<noteq> k0 \<Longrightarrow>
   re_search wb (k0 # ks) cls pw (replicate (Suc n) c @ rest)
     = re_search wb (k0 # ks) cls (is_word c) rest"
proof (induction n arbitrary: pw)
  case 0
  then show ?case by (simp add: re_search_other_char del: re_search.simps)
next
  case (Suc n)
  have "re_search wb (k0 # ks) cls pw (replicate (Suc (Suc n)) c @ rest)
          = re_search wb (k0 # ks) cls pw (c # (replicate (Suc n) c @ rest))" by simp
  also have "\<dots> = re_search wb (k0 # ks) cls (is_word c) (replicate (Suc n) c @ rest)"
    using Suc.prems by (rule re_search_other_char)
  also have "\<dots> = re_search wb (k0 # ks) cls (is_word c) rest"
    using Suc.prems by (rule Suc.IH)
  finally show ?case .
qed

lemma takeWhile_run:
  "P c \<Longrightarrow> \<not> P d \<Longrightarrow> takeWhile P (replicate n c @ d # rest) = replicate n c"
  by (induction n) auto

lemma dropWhile_run:
  "P c \<Longrightarrow> \<not> P d \<Longrightarrow> dropWhile P (replicate n c @ d # rest) = d # rest"
  by (induction n) auto

lemma crowd_line_facts:
  "\<not> contains ''<timestep'' (crowd_line i)" "contains ''<vehicle'' (crowd_line i)"
  "RE_VID (crowd_line i) = Some (crowd_id i)" "RE_X (crowd_line i) = Some ''1''"
  "RE_Y (crowd_line i) = Some ''2''" "RE_SPEED (crowd_line i) = Some ''3''"
  by (simp_all add: crowd_line_def crowd_id_def str_eval Let_def contains_skip_run
        re_search_skip_run takeWhile_run dropWhile_run del: replicate.simps)

text \<open>Appending to the table, for a key that is new or that is the last key.\<close>

lemma update_new_key: "k \<notin> fst ` set vs \<Longrightarrow> AList.update k v vs = vs @ [(k, v)]"
  by (induction vs) auto

lemma update_last_key:
  "k \<notin> fst ` set vs \<Longrightarrow> AList.update k v (vs @ [(k, x)]) = vs @ [(k, v)]"
  by (induction vs) auto

lemma map_of_last_key: "k \<notin> fst ` set vs \<Longrightarrow> map_of (vs @ [(k, x)]) k = Some x"
  by (induction vs) auto

lemma push_new:
  assumes "k \<notin> fst ` set vs"
  shows "append_waypoint k w (ensure_vehicle k vs) = Inr (vs @ [(k, [w])])"
proof -
  from assms have "map_of vs k = None" by (simp add: map_of_eq_None_iff)
  then have e: "ensure_vehicle k vs = vs @ [(k, [])]"
    using assms by (simp add: ensure_vehicle_def update_new_key)
  have m: "map_of (vs @ [(k, [])]) k = Some []" by (rule map_of_last_key[OF assms])
  show ?thesis
    unfolding append_waypoint_def e m by (simp add: update_last_key[OF assms])
qed

lemma push_last:
  assumes "k \<notin> fst ` set vs"
  shows "append_waypoint k w (ensure_vehicle k (vs @ [(k, ws)])) = Inr (vs @ [(k, ws @ [w])])"
proof -
  have m: "map_of (vs @ [(k, ws)]) k = Some ws" by (rule map_of_last_key[OF assms])
  then have e: "ensure_vehicle k (vs @ [(k, ws)]) = vs @ [(k, ws)]"
    unfolding ensure_vehicle_def by simp
  show ?thesis
    unfolding append_waypoint_def e m by (simp add: update_last_key[OF assms])
qed

lemma crowd_waypoint: "mk_waypoint 6 25200 ''1'' ''2'' ''3'' = Inr crowd_wp"
  by (simp add: mk_waypoint_def py_float_def is_digit_def digits_val_def py_int_def
        py_round_def round_half_even_def crowd_wp_def)

lemma traj_step_crowd_line:
  assumes "cur_time s = 25200"
  shows "traj_step s (crowd_line i)
           = (case append_waypoint (crowd_id i) crowd_wp (ensure_vehicle (crowd_id i) (vehicles s)) of
                Inl e \<Rightarrow> Inl e
              | Inr vs' \<Rightarrow> Inr (Continue, s\<lparr>vehicles := vs'\<rparr>))"
  using assms
  by (simp add: traj_step_def crowd_line_facts crowd_waypoint Let_def
        MORNING_START_def MORNING_END_def)

lemma traj_scan_crowd_more:
  "cur_time s = 25200 \<Longrightarrow> vehicles s = vs @ [(crowd_id i, ws)] \<Longrightarrow>
   crowd_id i \<notin> fst ` set vs \<Longrightarrow>
   traj_scan s (replicate m (crowd_line i) @ rest)
     = traj_scan (s\<lparr>vehicles := vs @ [(crowd_id i, ws @ replicate m crowd_wp)]\<rparr>) rest"
proof (induction m arbitrary: s ws)
  case 0
  have "s\<lparr>vehicles := vehicles s\<rparr> = s" by simp
  then have "s\<lparr>vehicles := vs @ [(crowd_id i, ws)]\<rparr> = s" unfolding 0(2) .
  then show ?case by simp
next
  case (Suc m)
  let ?s1 = "s\<lparr>vehicles := vs @ [(crowd_id i, ws @ [crowd_wp])]\<rparr>"
  have step: "traj_step s (crowd_line i) = Inr (Continue, ?s1)"
    using Suc.prems by (simp add: traj_step_crowd_line push_last)
  have "traj_scan ?s1 (replicate m (crowd_line i) @ rest)
          = traj_scan (?s1\<lparr>vehicles := vs @ [(crowd_id i, (ws @ [crowd_wp]) @ replicate m crowd_wp)]\<rparr>) rest"
    by (rule Suc.IH) (use Suc.prems in simp_all)
  with step show ?case by (simp add: replicate_app_Cons_same)
qed

lemma traj_scan_crowd_group:
  assumes "cur_time s = 25200" "crowd_id i \<notin> fst ` set (vehicles s)"
  shows "traj_scan s (replicate (Suc m) (crowd_line i) @ rest)
           = traj_scan (s\<lparr>vehicles := vehicles s @ [(crowd_id i, replicate (Suc m) crowd_wp)]\<rparr>) rest"
proof -
  let ?s1 = "s\<lparr>vehicles := vehicles s @ [(crowd_id i, [crowd_wp])]\<rparr>"
  have step: "traj_step s (crowd_line i) = Inr (Continue, ?s1)"
    using assms by (simp add: traj_step_crowd_line push_new)
  have "traj_scan ?s1 (replicate m (crowd_line i) @ rest)
          = traj_scan (?s1\<lparr>vehicles := vehicles s @ [(crowd_id i, [crowd_wp] @ replicate m crowd_wp)]\<rparr>) rest"
    by (rule traj_scan_crowd_more) (use assms in simp_all)
  with step show ?thesis by simp
qed

lemma crowd_id_inj: "crowd_id i = crowd_id j \<longleftrightarrow> i = j"
proof
  assume "crowd_id i = crowd_id j"
  then have "length (crowd_id i) = length (crowd_id j)" by simp
  then show "i = j" by (simp add: crowd_id_def)
qed simp

lemma crowd_id_fresh: "crowd_id j \<notin> fst ` set (crowd_table j)"
  by (auto simp: crowd_table_def crowd_id_inj)

lemma crowd_table_Suc:
  "crowd_table (Suc j) = crowd_table j @ [(crowd_id j, replicate 5 crowd_wp)]"
  by (simp add: crowd_table_def)

lemma traj_scan_crowd:
  "j \<le> n \<Longrightarrow> cur_time s = 25200 \<Longrightarrow> vehicles s = crowd_table j \<Longrightarrow>
   traj_scan s (concat (map (\<lambda>i. replicate 5 (crowd_line i)) [j..<n]))
     = Inr (s\<lparr>vehicles := crowd_table n\<rparr>)"
proof (induction "n - j" arbitrary: j s)
  case 0
  then show ?case by simp
next
  case (Suc d)
  then have lt: "j < n" by simp
  let ?s1 = "s\<lparr>vehicles := crowd_table (Suc j)\<rparr>"
  let ?rest = "concat (map (\<lambda>i. replicate 5 (crowd_line i)) [Suc j..<n])"
  have fresh: "crowd_id j \<notin> fst ` set (vehicles s)"
    using Suc.prems(3) crowd_id_fresh by simp
  have "traj_scan s (replicate (Suc 4) (crowd_line j) @ ?rest)
          = traj_scan (s\<lparr>vehicles := vehicles s @ [(crowd_id j, replicate (Suc 4) crowd_wp)]\<rparr>) ?rest"
    by (rule traj_scan_crowd_group[OF Suc.prems(2) fresh])
  then have one: "traj_scan s (replicate 5 (crowd_line j) @ ?rest) = traj_scan ?s1 ?rest"
    using Suc.prems(3) by (simp add: crowd_table_Suc)
  have "traj_scan ?s1 ?rest = Inr (?s1\<lparr>vehicles := crowd_table n\<rparr>)"
    by (rule Suc.hyps(1)) (use Suc.hyps(2) Suc.prems lt in simp_all)
  with one lt show ?case by (simp add: upt_conv_Cons)
qed

lemma postprocess_deckgl_crowd: "postprocess_deckgl (crowd_table n) = crowd_table n"
  by (simp add: postprocess_deckgl_def crowd_table_def filter_map comp_def)

lemma postprocess_trips_crowd: "postprocess_trips (crowd_trace n) = Inr (crowd_table n)"
proof -
  let ?s1 = "\<lparr>vehicles = [], cur_time = 25200\<rparr> :: tstate"
  have first: "traj_step tstate0 (timestep_line ''25200.00'') = Inr (Continue, ?s1)"
    by (simp add: traj_step_def morning_line_facts py_float_examples tstate0_def
          MORNING_END_def)
  have "traj_scan ?s1 (concat (map (\<lambda>i. replicate 5 (crowd_line i)) [0..<n]))
          = Inr (?s1\<lparr>vehicles := crowd_table n\<rparr>)"
    by (rule traj_scan_crowd) (simp_all add: crowd_table_def)
  with first show ?thesis
    by (simp add: postprocess_trips_def crowd_trace_def postprocess_deckgl_crowd)
qed

text \<open>
  Claim C2 holds of \<^verbatim>\<open>make_deckgl.py\<close> (\<open>make_deckgl_bounds\<close>) but not of the
  trajectory output of \<^verbatim>\<open>postprocess.py\<close>, which writes the same file without the
  cap: on the crowded trace with 8001 vehicles it writes 8001 trajectories.
\<close>

theorem postprocess_output_exceeds_cap:
  "postprocess_trips (crowd_trace 8001) = Inr (crowd_table 8001)
   \<and> length (crowd_table 8001) = 8001
   \<and> MAX_VEHICLES < length (crowd_table 8001)"
  by (simp add: postprocess_trips_crowd crowd_table_def MAX_VEHICLES_def)

end
